theory Spec2Isabelle
  imports Complex_Main "HOL-Library.Sublist"
begin

section \<open>Configuration (src/lang/messages/en/user.js)\<close>

datatype message_key = WIN | LOSE | START | WRONG_INPUT_TYPE | NOT_IN_RANGE | GAME_STARTED

fun MESSAGES :: "message_key \<Rightarrow> string" where
  "MESSAGES WIN = ''Excellent Memory!''"
| "MESSAGES LOSE = ''Wrong Order!''"
| "MESSAGES START = ''Scrambling buttons ....''"
| "MESSAGES WRONG_INPUT_TYPE = ''Please ensure you enter a number from 3 to 7!''"
| "MESSAGES NOT_IN_RANGE = ''Number is not in range, please enter a number from 3 to 7!''"
| "MESSAGES GAME_STARTED = ''Guess the correct order of the buttons''"

definition BUTTON_COLORS :: "string list" where
  "BUTTON_COLORS = [''red'', ''blue'', ''green'', ''yellow'', ''orange'', ''lime'', ''pink'']"

definition EDGE_MARGIN :: real where
  "EDGE_MARGIN = 10"

section \<open>The JavaScript values and built-ins the script uses\<close>

text \<open>
  The values that reach \<open>Validator.checkInput\<close>: \<open>null\<close>, \<open>undefined\<close>, or a Number, which
  is \<open>NaN\<close> or integer valued (the script only ever passes the result of \<open>parseInt\<close>).
  \<open>Num k\<close> keeps the mathematical integer; its rounding to a double (beyond \<open>2^53\<close>, up to
  \<open>Infinity\<close>) is monotone and exact on small integers, so every comparison with 3 and 7
  comes out the same.
\<close>

datatype jsval = Null | Undefined | NaN | Num int

text \<open>\<open>ToNumber\<close>; \<open>None\<close> is the number NaN.\<close>

fun toNumber :: "jsval \<Rightarrow> int option" where
  "toNumber Null = Some 0"
| "toNumber Undefined = None"
| "toNumber NaN = None"
| "toNumber (Num k) = Some k"

definition isNaN :: "jsval \<Rightarrow> bool" where
  "isNaN v = (toNumber v = None)"

text \<open>The relational operators \<open>v < c\<close> and \<open>v > c\<close> against a numeric literal: false on NaN.\<close>

definition js_lt :: "jsval \<Rightarrow> int \<Rightarrow> bool" where
  "js_lt v c = (case toNumber v of None \<Rightarrow> False | Some k \<Rightarrow> k < c)"

definition js_gt :: "jsval \<Rightarrow> int \<Rightarrow> bool" where
  "js_gt v c = (case toNumber v of None \<Rightarrow> False | Some k \<Rightarrow> k > c)"

text \<open>
  Strings are lists of 8-bit characters, read as the code units U+0000 to U+00FF.
  The white space and line terminators of ECMAScript in that range: TAB, LF, VT, FF, CR,
  SP and NBSP.
\<close>

definition isWhiteSpace :: "char \<Rightarrow> bool" where
  "isWhiteSpace c = (of_char c \<in> set [0x09, 0x0A, 0x0B, 0x0C, 0x0D, 0x20, 0xA0 :: nat])"

text \<open>\<open>String.prototype.trim\<close>: white space removed at both ends.\<close>

definition trim :: "string \<Rightarrow> string" where
  "trim s = rev (dropWhile isWhiteSpace (rev (dropWhile isWhiteSpace s)))"

text \<open>The value of a character as a digit (\<open>0-9\<close>, \<open>a-f\<close>, \<open>A-F\<close>), for the radices 10 and 16.\<close>

definition digitVal :: "char \<Rightarrow> nat option" where
  "digitVal c =
     (let n = of_char c :: nat in
      if 48 \<le> n \<and> n \<le> 57 then Some (n - 48)
      else if 97 \<le> n \<and> n \<le> 102 then Some (n - 87)
      else if 65 \<le> n \<and> n \<le> 70 then Some (n - 55)
      else None)"

definition isRadixDigit :: "nat \<Rightarrow> char \<Rightarrow> bool" where
  "isRadixDigit R c = (case digitVal c of None \<Rightarrow> False | Some d \<Rightarrow> d < R)"

definition mathInt :: "nat \<Rightarrow> string \<Rightarrow> int" where
  "mathInt R Z = foldl (\<lambda>acc c. acc * int R + int (case digitVal c of None \<Rightarrow> 0 | Some d \<Rightarrow> d)) 0 Z"

text \<open>
  \<open>parseInt(string)\<close> with no radix, step by step as ECMAScript gives it: leading white
  space is skipped, a sign is read, \<open>0x\<close> or \<open>0X\<close> switches to radix 16, the longest prefix of
  digits is the number and whatever follows is ignored; no digit at all gives NaN.
\<close>

definition parseInt :: "string \<Rightarrow> jsval" where
  "parseInt inputString =
     (let S = dropWhile isWhiteSpace inputString;
          sign = (if S \<noteq> [] \<and> hd S = CHR ''-'' then - 1 else 1 :: int);
          S1 = (if S \<noteq> [] \<and> (hd S = CHR ''+'' \<or> hd S = CHR ''-'') then tl S else S);
          hex = (take 2 S1 = ''0x'' \<or> take 2 S1 = ''0X'');
          R = (if hex then 16 else 10 :: nat);
          S2 = (if hex then drop 2 S1 else S1);
          Z = takeWhile (isRadixDigit R) S2
      in if Z = [] then NaN else Num (sign * mathInt R Z))"

section \<open>The game's data (src/js/script.js)\<close>

text \<open>The only click listener the script registers: the closure that calls \<open>checkClick(button)\<close>.\<close>

datatype handler = CheckClick

text \<open>
  A \<open>GameButton\<close> with the part of its DOM element the script reads or writes:
  \<open>color\<close> is \<open>None\<close> when the palette read was \<open>undefined\<close>; \<open>textContent\<close> is \<open>None\<close> for the
  empty text and \<open>Some k\<close> for the number \<open>k\<close>; \<open>location\<close> is the absolute position once
  \<open>setLocation\<close> has run; \<open>onclick\<close> is the element's \<open>onclick\<close> property and
  \<open>clickListeners\<close> the listeners added with \<open>addEventListener("click", ...)\<close>, in order.
\<close>

record GameButton =
  button_id :: nat
  color :: "string option"
  textContent :: "nat option"
  location :: "(real \<times> real) option"
  onclick :: "handler option"
  clickListeners :: "handler list"

definition newGameButton :: "nat \<Rightarrow> string option \<Rightarrow> GameButton" where
  "newGameButton i c =
     \<lparr>button_id = i, color = c, textContent = None, location = None,
      onclick = None, clickListeners = []\<rparr>"

definition showNumber :: "GameButton \<Rightarrow> GameButton" where
  "showNumber b = b\<lparr>textContent := Some (button_id b + 1)\<rparr>"

definition hideNumber :: "GameButton \<Rightarrow> GameButton" where
  "hideNumber b = b\<lparr>textContent := None\<rparr>"

definition setLocation :: "real \<Rightarrow> real \<Rightarrow> GameButton \<Rightarrow> GameButton" where
  "setLocation x y b = b\<lparr>location := Some (x, y)\<rparr>"

text \<open>
  What one run of an event handler reads from the browser: the \<open>k\<close>-th value
  \<open>Math.random()\<close> returns during the run, the window's inner size, and the offset size of
  the first button.
\<close>

record env =
  mathRandom :: "nat \<Rightarrow> real"
  innerWidth :: real
  innerHeight :: real
  offsetWidth :: real
  offsetHeight :: real

text \<open>
  Where a suspended \<open>playGame\<close> resumes when its timer fires: after the display pause
  (with \<open>userValue\<close>), or after the pause that ends iteration \<open>i\<close> of \<open>scrambleButtons\<close>
  (with \<open>i\<close>, \<open>times\<close>, \<open>btnWidth\<close>, \<open>btnHeight\<close>).
\<close>

datatype continuation = AfterDisplay int | AfterScramblePause nat int real real

text \<open>
  The \<open>GameManager\<close>, with the message area's text, the \<open>ButtonManager\<close>'s array and the
  pending timers, each with its delay in milliseconds and the continuation it resumes.
\<close>

record GameManager =
  messageArea :: string
  buttons :: "GameButton list"
  gameInProgress :: bool
  clickedOrder :: "nat list"
  ogOrder :: "nat list"
  timers :: "(int \<times> continuation) list"

text \<open>The state the constructor leaves.\<close>

definition newGameManager :: GameManager where
  "newGameManager =
     \<lparr>messageArea = [], buttons = [], gameInProgress = False, clickedOrder = [],
      ogOrder = [], timers = []\<rparr>"

section \<open>Messenger and Validator\<close>

definition displayMessage :: "string \<Rightarrow> GameManager \<Rightarrow> GameManager" where
  "displayMessage message g = g\<lparr>messageArea := message\<rparr>"

definition clearMessage :: "GameManager \<Rightarrow> GameManager" where
  "clearMessage g = g\<lparr>messageArea := []\<rparr>"

definition checkInput :: "jsval \<Rightarrow> GameManager \<Rightarrow> bool \<times> GameManager" where
  "checkInput input g =
     (if input = Null \<or> input = Undefined \<or> isNaN input
        then (False, displayMessage (MESSAGES WRONG_INPUT_TYPE) g)
      else if js_lt input 3 \<or> js_gt input 7
        then (False, displayMessage (MESSAGES NOT_IN_RANGE) g)
      else (True, g))"

section \<open>ButtonManager\<close>

text \<open>
  The loop of \<open>makeButton\<close>, from iteration \<open>i\<close>. Reading \<open>availableColors\<close> past its end
  gives \<open>undefined\<close>, and \<open>splice\<close> there removes nothing.
\<close>

function makeButton_loop ::
  "env \<Rightarrow> nat \<Rightarrow> int \<Rightarrow> string list \<Rightarrow> GameButton list \<Rightarrow> GameButton list" where
  "makeButton_loop e i btnNum availableColors bs =
     (if int i < btnNum then
        let randomIdx = nat \<lfloor>mathRandom e i * real (length availableColors)\<rfloor>;
            btnColor = (if randomIdx < length availableColors
                        then Some (availableColors ! randomIdx) else None);
            availableColors' = take randomIdx availableColors @ drop (Suc randomIdx) availableColors;
            newButton = newGameButton i btnColor
        in makeButton_loop e (Suc i) btnNum availableColors' (bs @ [showNumber newButton])
      else bs)"
  by pat_completeness auto
termination
  by (relation "measure (\<lambda>(e, i, btnNum, cs, bs). nat (btnNum - int i))") auto

definition makeButton :: "env \<Rightarrow> int \<Rightarrow> GameManager \<Rightarrow> GameManager" where
  "makeButton e btnNum g = g\<lparr>buttons := makeButton_loop e 0 btnNum BUTTON_COLORS (buttons g)\<rparr>"

definition clearButtons :: "GameManager \<Rightarrow> GameManager" where
  "clearButtons g = g\<lparr>buttons := []\<rparr>"

section \<open>GameManager\<close>

text \<open>
  \<open>memoryTest\<close>: the message, then for every button \<open>onclick = null\<close> and one more click
  listener.
\<close>

definition memoryTest :: "GameManager \<Rightarrow> GameManager" where
  "memoryTest g =
     (displayMessage (MESSAGES GAME_STARTED) g)
       \<lparr>buttons := map (\<lambda>button. button\<lparr>onclick := None,
                                         clickListeners := clickListeners button @ [CheckClick]\<rparr>)
                       (buttons g)\<rparr>"

text \<open>
  \<open>checkClick(button)\<close> for the button at index \<open>i\<close> of the array. \<open>expected\<close> is \<open>None\<close>
  when the read of \<open>ogOrder\<close> is past its end (\<open>undefined\<close>, which no id equals).
\<close>

definition checkClick :: "nat \<Rightarrow> GameManager \<Rightarrow> GameManager" where
  "checkClick i g =
     (let button = buttons g ! i;
          expected = (if length (clickedOrder g) < length (ogOrder g)
                      then Some (ogOrder g ! length (clickedOrder g)) else None)
      in if Some (button_id button) = expected then
           let g1 = g\<lparr>buttons := (buttons g)[i := showNumber button],
                      clickedOrder := clickedOrder g @ [button_id button]\<rparr>
           in if length (clickedOrder g1) = length (ogOrder g1)
              then displayMessage (MESSAGES WIN) g1 else g1
         else
           (displayMessage (MESSAGES LOSE) g)
             \<lparr>buttons := map (\<lambda>btn. btn\<lparr>onclick := None\<rparr>) (map showNumber (buttons g))\<rparr>)"

fun runHandler :: "nat \<Rightarrow> GameManager \<Rightarrow> handler \<Rightarrow> GameManager" where
  "runHandler i g CheckClick = checkClick i g"

text \<open>
  A click on the button at index \<open>i\<close>: the browser calls its \<open>onclick\<close> handler, if it has
  one, and every listener added with \<open>addEventListener\<close>, in order.
\<close>

definition dispatchClick :: "nat \<Rightarrow> GameManager \<Rightarrow> GameManager" where
  "dispatchClick i g =
     (let button = buttons g ! i
      in foldl (runHandler i) g
           ((case onclick button of None \<Rightarrow> [] | Some h \<Rightarrow> [h]) @ clickListeners button))"

text \<open>The body of the \<open>forEach\<close> in \<open>scrambleButtons\<close>: two random numbers for each button.\<close>

definition scramblePositions :: "env \<Rightarrow> real \<Rightarrow> real \<Rightarrow> GameButton list \<Rightarrow> GameButton list" where
  "scramblePositions e btnWidth btnHeight bs =
     map (\<lambda>(j, button).
            let margin = EDGE_MARGIN;
                maxX = innerWidth e - btnWidth - margin;
                maxY = innerHeight e - btnHeight - margin;
                x = margin + mathRandom e (2 * j) * (maxX - margin);
                y = margin + mathRandom e (2 * j + 1) * (maxY - margin)
            in setLocation x y button)
         (enumerate 0 bs)"

definition removeTimer :: "nat \<Rightarrow> GameManager \<Rightarrow> GameManager" where
  "removeTimer k g = g\<lparr>timers := take k (timers g) @ drop (Suc k) (timers g)\<rparr>"

text \<open>
  The loop of \<open>scrambleButtons\<close> at its test \<open>i < times\<close>, run by timer \<open>k\<close>: one more
  iteration up to its \<open>pause(2000)\<close>, or the end of the loop, after which \<open>playGame\<close> goes on
  to \<open>memoryTest\<close> in the same turn of the event loop.
\<close>

definition scrambleLoop ::
  "env \<Rightarrow> nat \<Rightarrow> nat \<Rightarrow> int \<Rightarrow> real \<Rightarrow> real \<Rightarrow> GameManager \<Rightarrow> GameManager" where
  "scrambleLoop e k i times' btnWidth btnHeight g =
     (if int i < times' then
        g\<lparr>buttons := scramblePositions e btnWidth btnHeight (buttons g),
          timers := (timers g)[k := (2000, AfterScramblePause i times' btnWidth btnHeight)]\<rparr>
      else memoryTest (removeTimer k g))"

text \<open>
  Timer \<open>k\<close> fires and \<open>playGame\<close> resumes. After the display pause the numbers are hidden
  and \<open>scrambleButtons\<close> starts; with no button, reading \<open>buttons[0].buttonObj\<close> throws a
  TypeError and this \<open>playGame\<close> ends there.
\<close>

definition resume :: "env \<Rightarrow> nat \<Rightarrow> GameManager \<Rightarrow> GameManager" where
  "resume e k g =
     (case snd (timers g ! k) of
        AfterDisplay userValue \<Rightarrow>
          let g1 = g\<lparr>buttons := map hideNumber (buttons g)\<rparr>
          in if buttons g1 = [] then removeTimer k g1
             else scrambleLoop e k 0 userValue (offsetWidth e) (offsetHeight e) g1
      | AfterScramblePause i times' btnWidth btnHeight \<Rightarrow>
          scrambleLoop e k (Suc i) times' btnWidth btnHeight g)"

text \<open>\<open>playGame\<close> up to its first \<open>await\<close>.\<close>

definition playGame :: "int \<Rightarrow> GameManager \<Rightarrow> GameManager" where
  "playGame userValue g =
     g\<lparr>ogOrder := map button_id (buttons g),
       clickedOrder := [],
       timers := timers g @ [(userValue * 1000, AfterDisplay userValue)]\<rparr>"

text \<open>
  \<open>initGame\<close>, with the text of the input field. \<open>checkInput\<close> returns true on numbers
  only, so the value that reaches \<open>makeButton\<close> and \<open>playGame\<close> is a \<open>Num\<close>; the other
  cases of the inner \<open>case\<close> are never taken.
\<close>

definition initGame :: "env \<Rightarrow> string \<Rightarrow> GameManager \<Rightarrow> GameManager" where
  "initGame e userInput g =
     (let g1 = (if gameInProgress g
                then (clearMessage (clearButtons g))
                       \<lparr>ogOrder := [], clickedOrder := [], gameInProgress := False\<rparr>
                else g);
          userValue = parseInt (trim userInput)
      in case checkInput userValue g1 of
           (True, g2) \<Rightarrow>
             (case userValue of
                Num n \<Rightarrow>
                  playGame n ((displayMessage (MESSAGES START) (makeButton e n g2))
                                \<lparr>gameInProgress := True\<rparr>)
              | _ \<Rightarrow> g2)
         | (False, g2) \<Rightarrow> g2)"

text \<open>
  The events of the page: the Go button is clicked with a text in the input field, the
  pending timer at index \<open>k\<close> fires, or the button at index \<open>i\<close> of the array is clicked.
  Each handler runs to completion.
\<close>

datatype event = Go string | Timer nat | Click nat

fun step :: "env \<Rightarrow> GameManager \<Rightarrow> event \<Rightarrow> GameManager" where
  "step e g (Go userInput) = initGame e userInput g"
| "step e g (Timer k) = (if k < length (timers g) then resume e k g else g)"
| "step e g (Click i) = (if i < length (buttons g) then dispatchClick i g else g)"

section \<open>Runs of events\<close>

text \<open>
  The pending timer at index 0 fires \<open>m\<close> times in a row, the \<open>j\<close>-th time with the
  browser as \<open>es j\<close> gives it; and the buttons at the indices \<open>is\<close> are clicked one after
  the other. In a round the button with id \<open>i\<close> is the one at index \<open>i\<close> of the array.
\<close>

definition fireTimers :: "(nat \<Rightarrow> env) \<Rightarrow> nat \<Rightarrow> GameManager \<Rightarrow> GameManager" where
  "fireTimers es m g = foldl (\<lambda>g j. step (es j) g (Timer 0)) g [0..<m]"

definition clickAll :: "env \<Rightarrow> nat list \<Rightarrow> GameManager \<Rightarrow> GameManager" where
  "clickAll e is g = foldl (\<lambda>g i. step e g (Click i)) g is"

text \<open>Any events, one after the other, each handler run with the browser as \<open>e\<close> gives it.\<close>

definition runEvents :: "env \<Rightarrow> event list \<Rightarrow> GameManager \<Rightarrow> GameManager" where
  "runEvents e evs g = foldl (step e) g evs"

text \<open>
  A browser for the examples: \<open>Math.random()\<close> always returns one half, the window is
  1000 by 800 pixels and a button 160 by 80; and a window of 100 by 60 pixels, smaller
  than a button.
\<close>

definition exampleEnv :: env where
  "exampleEnv =
     \<lparr>mathRandom = (\<lambda>k. 1 / 2), innerWidth = 1000, innerHeight = 800,
      offsetWidth = 160, offsetHeight = 80\<rparr>"


section \<open>The validator and the parse of the input\<close>

lemma parseInt_cases: "parseInt s = NaN \<or> (\<exists>k. parseInt s = Num k)"
  by (simp add: parseInt_def Let_def)

lemma checkInput_Num:
  "checkInput (Num k) g =
     (if 3 \<le> k \<and> k \<le> 7 then (True, g) else (False, displayMessage (MESSAGES NOT_IN_RANGE) g))"
  by (auto simp add: checkInput_def isNaN_def js_lt_def js_gt_def)

lemma checkInput_not_number:
  "v = Null \<or> v = Undefined \<or> v = NaN \<Longrightarrow>
   checkInput v g = (False, displayMessage (MESSAGES WRONG_INPUT_TYPE) g)"
  by (auto simp add: checkInput_def isNaN_def)

text \<open>
  Claim C6. Whatever value it is given, \<open>checkInput\<close> returns true exactly when the value
  is a number from 3 to 7, and then changes nothing. On \<open>null\<close>, \<open>undefined\<close> and NaN (a
  text that does not parse as a number) it returns false and the message area shows the
  \<open>WRONG_INPUT_TYPE\<close> message; on a number below 3 or above 7 it returns false and the
  message area shows the \<open>NOT_IN_RANGE\<close> message; nothing else of the state changes. It
  always returns a value: no case throws.
\<close>

theorem checkInput_ok_iff:
  "(fst (checkInput v g) \<longleftrightarrow> (\<exists>k. v = Num k \<and> 3 \<le> k \<and> k \<le> 7))
   \<and> (v = Null \<or> v = Undefined \<or> v = NaN \<longrightarrow>
        checkInput v g = (False, displayMessage (MESSAGES WRONG_INPUT_TYPE) g)
        \<and> checkInput v g = (False, g\<lparr>messageArea := MESSAGES WRONG_INPUT_TYPE\<rparr>)
        \<and> messageArea (snd (checkInput v g)) = MESSAGES WRONG_INPUT_TYPE)
   \<and> (\<forall>k. v = Num k \<and> (k < 3 \<or> 7 < k) \<longrightarrow>
        checkInput v g = (False, displayMessage (MESSAGES NOT_IN_RANGE) g)
        \<and> checkInput v g = (False, g\<lparr>messageArea := MESSAGES NOT_IN_RANGE\<rparr>)
        \<and> messageArea (snd (checkInput v g)) = MESSAGES NOT_IN_RANGE)
   \<and> (fst (checkInput v g) \<longrightarrow> snd (checkInput v g) = g)"
  by (cases v) (auto simp add: checkInput_Num checkInput_not_number displayMessage_def)

theorem checkInput_ok_iff_witness:
  "checkInput NaN newGameManager =
     (False, newGameManager\<lparr>messageArea := MESSAGES WRONG_INPUT_TYPE\<rparr>)
   \<and> messageArea (snd (checkInput NaN newGameManager)) =
       ''Please ensure you enter a number from 3 to 7!''
   \<and> checkInput (Num 10) newGameManager =
       (False, newGameManager\<lparr>messageArea := MESSAGES NOT_IN_RANGE\<rparr>)
   \<and> messageArea (snd (checkInput (Num 10) newGameManager)) =
       ''Number is not in range, please enter a number from 3 to 7!''
   \<and> fst (checkInput (Num 5) newGameManager)
   \<and> snd (checkInput (Num 5) newGameManager) = newGameManager"
  using checkInput_ok_iff [of NaN newGameManager] checkInput_ok_iff [of "Num 10" newGameManager]
    checkInput_ok_iff [of "Num 5" newGameManager]
  by (simp add: displayMessage_def)

lemma decimal_digit_code: "isRadixDigit 10 c \<Longrightarrow> 48 \<le> (of_char c :: nat) \<and> (of_char c :: nat) \<le> 57"
  by (auto simp add: isRadixDigit_def digitVal_def Let_def split: if_splits option.splits)

lemma decimal_digit_not_space: "isRadixDigit 10 c \<Longrightarrow> \<not> isWhiteSpace c"
  by (drule decimal_digit_code) (auto simp add: isWhiteSpace_def)

lemma decimal_digit_not_sign: "isRadixDigit 10 c \<Longrightarrow> c \<noteq> CHR ''+'' \<and> c \<noteq> CHR ''-'' \<and> c \<noteq> CHR ''x'' \<and> c \<noteq> CHR ''X''"
  by (drule decimal_digit_code) auto

lemma plus_not_space: "\<not> isWhiteSpace CHR ''+''"
  by (simp add: isWhiteSpace_def)

lemma trimEnd_prefix:
  "\<exists>t. xs = rev (dropWhile P (rev xs)) @ t"
proof -
  have "rev (takeWhile P (rev xs) @ dropWhile P (rev xs)) = xs" by simp
  then have "rev (dropWhile P (rev xs)) @ rev (takeWhile P (rev xs)) = xs"
    by (simp only: rev_append)
  then show ?thesis by metis
qed

lemma trim_shape:
  assumes ws: "\<forall>c\<in>set ws. isWhiteSpace c"
    and p: "p \<noteq> []" "\<not> isWhiteSpace (hd p)" "\<not> isWhiteSpace (last p)"
  shows "\<exists>rest'. trim (ws @ p @ rest) = p @ rest' \<and> (rest' = [] \<or> (rest \<noteq> [] \<and> hd rest' = hd rest))"
proof -
  have a: "dropWhile isWhiteSpace (ws @ p @ rest) = p @ rest"
    using ws p by (cases p) (simp_all add: dropWhile_append2)
  show ?thesis
  proof (cases "\<forall>c\<in>set rest. isWhiteSpace c")
    case True
    then have "dropWhile isWhiteSpace (rev rest @ rev p) = dropWhile isWhiteSpace (rev p)"
      by (intro dropWhile_append2) auto
    moreover have "dropWhile isWhiteSpace (rev p) = rev p"
      using p by (cases p rule: rev_cases) simp_all
    ultimately have "dropWhile isWhiteSpace (rev rest @ rev p) = rev p"
      by simp
    then show ?thesis by (simp add: trim_def a)
  next
    case False
    then obtain c where c: "c \<in> set (rev rest)" "\<not> isWhiteSpace c" by auto
    have b: "dropWhile isWhiteSpace (rev rest @ rev p) = dropWhile isWhiteSpace (rev rest) @ rev p"
      using dropWhile_append1 [of c "rev rest" isWhiteSpace "rev p"] c by simp
    define r where "r = rev (dropWhile isWhiteSpace (rev rest))"
    have ne: "r \<noteq> []" using c by (auto simp add: r_def dropWhile_eq_Nil_conv)
    obtain t where t: "rest = r @ t" using trimEnd_prefix [of rest isWhiteSpace] r_def by auto
    have "hd r = hd rest" using ne t by (cases r) auto
    moreover have "rest \<noteq> []" using ne t by auto
    moreover have "trim (ws @ p @ rest) = p @ r" by (simp add: trim_def a b r_def)
    ultimately show ?thesis by auto
  qed
qed


lemma mathInt_single_zero: "mathInt 10 [CHR ''0''] = 0"
  by (simp add: mathInt_def digitVal_def)

lemma parseInt_unsigned:
  assumes "S \<noteq> []" "\<not> isWhiteSpace (hd S)" "hd S \<noteq> CHR ''+''" "hd S \<noteq> CHR ''-''"
    and "take 2 S \<noteq> ''0x''" "take 2 S \<noteq> ''0X''"
    and "takeWhile (isRadixDigit 10) S = Z" "Z \<noteq> []"
  shows "parseInt S = Num (mathInt 10 Z)"
proof -
  have dw: "dropWhile isWhiteSpace S = S" using assms(1,2) by (cases S) auto
  show ?thesis unfolding parseInt_def dw Let_def using assms by simp
qed

lemma parseInt_plus:
  assumes "take 2 S \<noteq> ''0x''" "take 2 S \<noteq> ''0X''"
    and "takeWhile (isRadixDigit 10) S = Z" "Z \<noteq> []"
  shows "parseInt (CHR ''+'' # S) = Num (mathInt 10 Z)"
proof -
  have dw: "dropWhile isWhiteSpace (CHR ''+'' # S) = CHR ''+'' # S"
    using plus_not_space by simp
  show ?thesis unfolding parseInt_def dw Let_def using assms by simp
qed

lemma parseInt_decimal:
  assumes sg: "sg = [] \<or> sg = ''+''"
    and ds: "ds \<noteq> []" "\<forall>c\<in>set ds. isRadixDigit 10 c"
    and v: "3 \<le> mathInt 10 ds"
    and r: "r = [] \<or> \<not> isRadixDigit 10 (hd r)"
  shows "parseInt (sg @ ds @ r) = Num (mathInt 10 ds)"
proof -
  obtain d ds' where d: "ds = d # ds'" using ds(1) by (cases ds) auto
  have dd: "isRadixDigit 10 d" using ds(2) d by simp
  have d1: "\<not> isWhiteSpace (hd (ds @ r))" "hd (ds @ r) \<noteq> CHR ''+''" "hd (ds @ r) \<noteq> CHR ''-''"
    using decimal_digit_not_space [OF dd] decimal_digit_not_sign [OF dd] d by simp_all
  have tw0: "takeWhile (isRadixDigit 10) r = []" using r by (cases r) auto
  have "takeWhile (isRadixDigit 10) (ds @ r) = ds @ takeWhile (isRadixDigit 10) r"
    using ds(2) by (intro takeWhile_append2) auto
  then have tw: "takeWhile (isRadixDigit 10) (ds @ r) = ds" using tw0 by simp
  have nohex: "take 2 (ds @ r) \<noteq> ''0x''" "take 2 (ds @ r) \<noteq> ''0X''"
  proof -
    have "take 2 (ds @ r) \<noteq> ''0x'' \<and> take 2 (ds @ r) \<noteq> ''0X''"
    proof (cases ds')
      case Nil
      then have "d \<noteq> CHR ''0''" using v d mathInt_single_zero by auto
      then show ?thesis using d by auto
    next
      case (Cons d2 ds2)
      then have "isRadixDigit 10 d2" using ds(2) d by simp
      then have "d2 \<noteq> CHR ''x'' \<and> d2 \<noteq> CHR ''X''" using decimal_digit_not_sign by blast
      then show ?thesis using d Cons by auto
    qed
    then show "take 2 (ds @ r) \<noteq> ''0x''" "take 2 (ds @ r) \<noteq> ''0X''" by simp_all
  qed
  have ne: "ds @ r \<noteq> []" using ds(1) by simp
  have core: "parseInt (ds @ r) = Num (mathInt 10 ds)"
    by (rule parseInt_unsigned [OF ne d1 nohex tw ds(1)])
  have plus: "parseInt (CHR ''+'' # ds @ r) = Num (mathInt 10 ds)"
    by (rule parseInt_plus [OF nohex tw ds(1)])
  show ?thesis using sg core plus by auto
qed

lemma parseInt_trim_numeric_prefix:
  assumes ws: "\<forall>c\<in>set ws. isWhiteSpace c"
    and sg: "sg = [] \<or> sg = ''+''"
    and ds: "ds \<noteq> []" "\<forall>c\<in>set ds. isRadixDigit 10 c"
    and v: "3 \<le> mathInt 10 ds"
    and r: "rest = [] \<or> \<not> isRadixDigit 10 (hd rest)"
  shows "parseInt (trim (ws @ sg @ ds @ rest)) = Num (mathInt 10 ds)"
proof -
  let ?p = "sg @ ds"
  have d: "isRadixDigit 10 (hd ds)" "isRadixDigit 10 (last ds)" using ds by simp_all
  have p: "?p \<noteq> []" "\<not> isWhiteSpace (hd ?p)" "\<not> isWhiteSpace (last ?p)"
    using sg ds(1) d decimal_digit_not_space plus_not_space by auto
  obtain rest' where t: "trim (ws @ ?p @ rest) = ?p @ rest'"
    and h: "rest' = [] \<or> (rest \<noteq> [] \<and> hd rest' = hd rest)"
    using trim_shape [OF ws p] by blast
  have "rest' = [] \<or> \<not> isRadixDigit 10 (hd rest')" using h r by auto
  then have "parseInt (sg @ ds @ rest') = Num (mathInt 10 ds)"
    using parseInt_decimal [OF sg ds v] by blast
  then show ?thesis using t by simp
qed

section \<open>The buttons of a round\<close>

declare makeButton_loop.simps [simp del]

lemma makeButton_loop_done:
  "\<not> int i < btnNum \<Longrightarrow> makeButton_loop e i btnNum cs bs = bs"
  by (simp add: makeButton_loop.simps)

lemma makeButton_loop_step:
  "int i < btnNum \<Longrightarrow>
   makeButton_loop e i btnNum cs bs =
     (let randomIdx = nat \<lfloor>mathRandom e i * real (length cs)\<rfloor>
      in makeButton_loop e (Suc i) btnNum (take randomIdx cs @ drop (Suc randomIdx) cs)
           (bs @ [showNumber (newGameButton i
                    (if randomIdx < length cs then Some (cs ! randomIdx) else None))]))"
  by (subst makeButton_loop.simps) (simp add: Let_def)

lemma makeButton_loop_acc:
  "makeButton_loop e i btnNum cs bs = bs @ makeButton_loop e i btnNum cs []"
proof (induction "nat (btnNum - int i)" arbitrary: i cs bs)
  case 0
  then have "\<not> int i < btnNum" by simp
  then show ?case by (simp add: makeButton_loop_done)
next
  case (Suc m)
  then have lt: "int i < btnNum" and m: "m = nat (btnNum - int (Suc i))" by simp_all
  show ?case
    unfolding makeButton_loop_step [OF lt, of e cs bs] makeButton_loop_step [OF lt, of e cs "[]"] Let_def
    by (subst Suc.hyps(1) [OF m]) (subst (2) Suc.hyps(1) [OF m], simp)
qed

lemma makeButton_loop_Cons:
  "int i < btnNum \<Longrightarrow>
   makeButton_loop e i btnNum cs [] =
     (let randomIdx = nat \<lfloor>mathRandom e i * real (length cs)\<rfloor>
      in showNumber (newGameButton i (if randomIdx < length cs then Some (cs ! randomIdx) else None))
         # makeButton_loop e (Suc i) btnNum (take randomIdx cs @ drop (Suc randomIdx) cs) [])"
  unfolding makeButton_loop_step [of i btnNum e cs "[]"] Let_def
  by (subst makeButton_loop_acc) simp

lemma makeButton_loop_ids:
  "map button_id (makeButton_loop e i btnNum cs []) = [i..<nat btnNum]"
proof (induction "nat (btnNum - int i)" arbitrary: i cs)
  case 0
  then have "\<not> int i < btnNum" by simp
  then show ?case by (simp add: makeButton_loop_done)
next
  case (Suc m)
  then have lt: "int i < btnNum" and m: "m = nat (btnNum - int (Suc i))" by simp_all
  have "i < nat btnNum" using lt by simp
  then have u: "[i..<nat btnNum] = i # [Suc i..<nat btnNum]" by (simp add: upt_conv_Cons)
  show ?case
    by (simp add: makeButton_loop_Cons [OF lt] Let_def Suc.hyps(1) [OF m] u showNumber_def newGameButton_def)
qed

lemma makeButton_loop_length:
  "length (makeButton_loop e 0 n cs []) = nat n"
  using arg_cong [OF makeButton_loop_ids [of e 0 n cs], of length] by simp

lemma makeButton_loop_fresh:
  "b \<in> set (makeButton_loop e i btnNum cs []) \<Longrightarrow>
   textContent b = Some (button_id b + 1) \<and> location b = None \<and> onclick b = None
   \<and> clickListeners b = []"
proof (induction "nat (btnNum - int i)" arbitrary: i cs)
  case 0
  then have "\<not> int i < btnNum" by simp
  then show ?case using 0 by (simp add: makeButton_loop_done)
next
  case (Suc m)
  then have lt: "int i < btnNum" and m: "m = nat (btnNum - int (Suc i))" by simp_all
  show ?case
    using Suc.prems Suc.hyps(1) [OF m]
    by (auto simp add: makeButton_loop_Cons [OF lt] Let_def showNumber_def newGameButton_def)
qed

lemma random_index_less:
  assumes "0 \<le> r" "r < 1" "cs \<noteq> []"
  shows "nat \<lfloor>r * real (length cs)\<rfloor> < length cs"
proof -
  have "r * real (length cs) < real (length cs)" using assms by simp
  then have "\<lfloor>r * real (length cs)\<rfloor> < int (length cs)" by (simp add: floor_less_iff)
  moreover have "0 < length cs" using assms(3) by simp
  ultimately show ?thesis by linarith
qed

lemma remove_index_set:
  assumes "distinct cs" "k < length cs"
  shows "set (take k cs @ drop (Suc k) cs) = set cs - {cs ! k}"
    and "distinct (take k cs @ drop (Suc k) cs)"
    and "length (take k cs @ drop (Suc k) cs) = length cs - 1"
proof -
  have cs: "cs = take k cs @ cs ! k # drop (Suc k) cs"
    using assms(2) by (simp add: id_take_nth_drop)
  have d: "distinct (take k cs @ cs ! k # drop (Suc k) cs)" using assms(1) cs by simp
  have s: "set cs = set (take k cs @ cs ! k # drop (Suc k) cs)" using cs by simp
  show "set (take k cs @ drop (Suc k) cs) = set cs - {cs ! k}"
    using d by (subst s) auto
  show "distinct (take k cs @ drop (Suc k) cs)" using d by simp
  show "length (take k cs @ drop (Suc k) cs) = length cs - 1" using assms(2) by simp
qed

lemma makeButton_loop_colors:
  assumes "\<forall>k. 0 \<le> mathRandom e k \<and> mathRandom e k < 1"
  shows "distinct cs \<Longrightarrow> nat (btnNum - int i) \<le> length cs \<Longrightarrow>
         distinct (map color (makeButton_loop e i btnNum cs []))
         \<and> set (map color (makeButton_loop e i btnNum cs [])) \<subseteq> Some ` set cs"
proof (induction "nat (btnNum - int i)" arbitrary: i cs)
  case 0
  then have "\<not> int i < btnNum" by simp
  then show ?case by (simp add: makeButton_loop_done)
next
  case (Suc m)
  then have lt: "int i < btnNum" and m: "m = nat (btnNum - int (Suc i))" by simp_all
  define k where "k = nat \<lfloor>mathRandom e i * real (length cs)\<rfloor>"
  define cs' where "cs' = take k cs @ drop (Suc k) cs"
  have ne: "cs \<noteq> []" using Suc.hyps(2) Suc.prems(2) by auto
  have k: "k < length cs" unfolding k_def using assms ne by (intro random_index_less) auto
  note r = remove_index_set [OF Suc.prems(1) k, folded cs'_def]
  have len: "nat (btnNum - int (Suc i)) \<le> length cs'" using r(3) Suc.prems(2) Suc.hyps(2) by simp
  note IH = Suc.hyps(1) [OF m r(2) len]
  have eq: "makeButton_loop e i btnNum cs [] =
              showNumber (newGameButton i (Some (cs ! k))) # makeButton_loop e (Suc i) btnNum cs' []"
    using k by (simp add: makeButton_loop_Cons [OF lt] Let_def k_def [symmetric] cs'_def)
  have c: "color (showNumber (newGameButton i (Some (cs ! k)))) = Some (cs ! k)"
    by (simp add: showNumber_def newGameButton_def)
  have notin: "Some (cs ! k) \<notin> set (map color (makeButton_loop e (Suc i) btnNum cs' []))"
    using IH r(1) by auto
  have sub: "Some ` set cs' \<subseteq> Some ` set cs" using r(1) by auto
  have sub2: "set (map color (makeButton_loop e (Suc i) btnNum cs' [])) \<subseteq> Some ` set cs"
    using IH sub by blast
  have here: "Some (cs ! k) \<in> Some ` set cs" using k by simp
  show ?case using IH notin sub2 here by (simp add: eq c)
qed

lemma buttons_makeButton:
  "buttons (makeButton e n g) = buttons g @ makeButton_loop e 0 n BUTTON_COLORS []"
  unfolding makeButton_def by (subst makeButton_loop_acc) simp

lemma BUTTON_COLORS_distinct: "distinct BUTTON_COLORS \<and> length BUTTON_COLORS = 7"
  by (simp add: BUTTON_COLORS_def)

text \<open>
  Claim C5. For a count \<open>n\<close> from 3 to 7, and \<open>Math.random()\<close> in \<open>[0, 1)\<close>, \<open>makeButton(n)\<close>
  appends exactly \<open>n\<close> buttons to the array: their ids are \<open>0, ..., n - 1\<close> in creation
  order, their colors are pairwise distinct and come from the palette of 7, and each
  shows its number (its id plus one). On the empty array of a new round these are all
  the buttons.
\<close>

theorem makeButton_creates:
  assumes "\<forall>k. 0 \<le> mathRandom e k \<and> mathRandom e k < 1"
    and "3 \<le> n" and "n \<le> 7"
  shows "\<exists>new. buttons (makeButton e n g) = buttons g @ new
           \<and> length new = nat n
           \<and> map button_id new = [0..<nat n]
           \<and> distinct (map color new)
           \<and> (\<forall>b\<in>set new. \<exists>c\<in>set BUTTON_COLORS. color b = Some c)
           \<and> (\<forall>b\<in>set new. textContent b = Some (button_id b + 1))"
proof -
  let ?new = "makeButton_loop e 0 n BUTTON_COLORS []"
  have ids: "map button_id ?new = [0..<nat n]" by (rule makeButton_loop_ids)
  have len: "length ?new = nat n" using arg_cong [OF ids, of length] by simp
  have "nat (n - int 0) \<le> length BUTTON_COLORS" using assms(3) BUTTON_COLORS_distinct by simp
  then have col: "distinct (map color ?new) \<and> set (map color ?new) \<subseteq> Some ` set BUTTON_COLORS"
    using makeButton_loop_colors [OF assms(1)] BUTTON_COLORS_distinct by blast
  have pal: "\<forall>b\<in>set ?new. \<exists>c\<in>set BUTTON_COLORS. color b = Some c"
    using col by auto
  have shown: "\<forall>b\<in>set ?new. textContent b = Some (button_id b + 1)"
    using makeButton_loop_fresh by blast
  show ?thesis using buttons_makeButton ids len col pal shown by blast
qed

theorem makeButton_creates_witness:
  "\<exists>new. buttons (makeButton exampleEnv 3 newGameManager) = buttons newGameManager @ new
           \<and> length new = nat 3
           \<and> map button_id new = [0..<nat 3]
           \<and> distinct (map color new)
           \<and> (\<forall>b\<in>set new. \<exists>c\<in>set BUTTON_COLORS. color b = Some c)
           \<and> (\<forall>b\<in>set new. textContent b = Some (button_id b + 1))"
proof -
  have r: "\<forall>k. 0 \<le> mathRandom exampleEnv k \<and> mathRandom exampleEnv k < 1"
    by (simp add: exampleEnv_def)
  show ?thesis by (rule makeButton_creates [OF r]) simp_all
qed

section \<open>Submitting an input\<close>

lemma newGameManager_fields [simp]:
  "messageArea newGameManager = []" "buttons newGameManager = []"
  "gameInProgress newGameManager = False" "clickedOrder newGameManager = []"
  "ogOrder newGameManager = []" "timers newGameManager = []"
  by (simp_all add: newGameManager_def)

lemma makeButton_eq:
  "makeButton e n g = g\<lparr>buttons := buttons g @ makeButton_loop e 0 n BUTTON_COLORS []\<rparr>"
  unfolding makeButton_def by (subst makeButton_loop_acc) simp

lemma initGame_valid:
  assumes "parseInt (trim s) = Num n" "3 \<le> n" "n \<le> 7"
  shows "initGame e s g =
           playGame n
             ((displayMessage (MESSAGES START)
                 (makeButton e n
                    (if gameInProgress g
                     then (clearMessage (clearButtons g))
                            \<lparr>ogOrder := [], clickedOrder := [], gameInProgress := False\<rparr>
                     else g)))
                \<lparr>gameInProgress := True\<rparr>)"
  using assms by (simp add: initGame_def Let_def checkInput_Num)

lemma initGame_invalid:
  assumes "parseInt (trim s) = NaN \<or> (\<exists>k. parseInt (trim s) = Num k \<and> (k < 3 \<or> 7 < k))"
  shows "initGame e s g =
           displayMessage
             (if parseInt (trim s) = NaN then MESSAGES WRONG_INPUT_TYPE else MESSAGES NOT_IN_RANGE)
             (if gameInProgress g
              then (clearMessage (clearButtons g))
                     \<lparr>ogOrder := [], clickedOrder := [], gameInProgress := False\<rparr>
              else g)"
  using assms by (auto simp add: initGame_def Let_def checkInput_Num checkInput_not_number)

lemma initGame_start:
  assumes "parseInt (trim s) = Num n" "3 \<le> n" "n \<le> 7"
    and "gameInProgress g \<or> buttons g = []"
  shows "initGame e s g =
           \<lparr>messageArea = MESSAGES START,
            buttons = makeButton_loop e 0 n BUTTON_COLORS [],
            gameInProgress = True, clickedOrder = [], ogOrder = [0..<nat n],
            timers = timers g @ [(n * 1000, AfterDisplay n)]\<rparr>"
  using assms(4)
  by (auto simp add: initGame_valid [OF assms(1-3)] playGame_def displayMessage_def
      clearMessage_def clearButtons_def makeButton_eq makeButton_loop_ids)

text \<open>
  Claim C10. The input is trimmed and parsed by \<open>parseInt\<close> before
  it is validated: a text made of white space, an optional \<open>+\<close>, decimal digits whose value
  is from 3 to 7, and then anything that does not start with a digit (as in \<open>3abc\<close> or
  \<open>7.9\<close>) parses to that value, is accepted, and starts a round with it: that many new
  buttons, the START message and the display pause of that many seconds.
\<close>

theorem initGame_accepts_numeric_prefix:
  assumes "\<forall>c\<in>set ws. isWhiteSpace c"
    and "sg = [] \<or> sg = ''+''"
    and "ds \<noteq> []" and "\<forall>c\<in>set ds. isRadixDigit 10 c"
    and "3 \<le> mathInt 10 ds" and "mathInt 10 ds \<le> 7"
    and "rest = [] \<or> \<not> isRadixDigit 10 (hd rest)"
  shows "parseInt (trim (ws @ sg @ ds @ rest)) = Num (mathInt 10 ds)
         \<and> fst (checkInput (parseInt (trim (ws @ sg @ ds @ rest))) g)
         \<and> gameInProgress (initGame e (ws @ sg @ ds @ rest) g)
         \<and> messageArea (initGame e (ws @ sg @ ds @ rest) g) = MESSAGES START
         \<and> timers (initGame e (ws @ sg @ ds @ rest) g) =
             timers g @ [(mathInt 10 ds * 1000, AfterDisplay (mathInt 10 ds))]
         \<and> (\<exists>new. buttons (initGame e (ws @ sg @ ds @ rest) g) =
                     (if gameInProgress g then [] else buttons g) @ new
                   \<and> map button_id new = [0..<nat (mathInt 10 ds)])"
proof -
  let ?s = "ws @ sg @ ds @ rest" and ?n = "mathInt 10 ds"
  have p: "parseInt (trim ?s) = Num ?n"
    by (rule parseInt_trim_numeric_prefix [OF assms(1-5) assms(7)])
  note v = initGame_valid [OF p assms(5,6)]
  have ok: "fst (checkInput (parseInt (trim ?s)) g)"
    using assms(5,6) by (simp add: p checkInput_Num)
  have b: "buttons (initGame e ?s g) =
             (if gameInProgress g then [] else buttons g) @ makeButton_loop e 0 ?n BUTTON_COLORS []"
    by (simp add: v playGame_def displayMessage_def clearMessage_def clearButtons_def
        buttons_makeButton)
  have "gameInProgress (initGame e ?s g)"
    and "messageArea (initGame e ?s g) = MESSAGES START"
    and "timers (initGame e ?s g) = timers g @ [(?n * 1000, AfterDisplay ?n)]"
    by (simp_all add: v playGame_def displayMessage_def clearMessage_def clearButtons_def
        makeButton_def)
  then show ?thesis using p ok b makeButton_loop_ids by blast
qed

theorem initGame_accepts_numeric_prefix_witness:
  "parseInt (trim ''3abc'') = Num 3
   \<and> parseInt (trim ''7.9'') = Num 7
   \<and> gameInProgress (initGame exampleEnv ''3abc'' newGameManager)
   \<and> timers (initGame exampleEnv ''7.9'' newGameManager) = [(7000, AfterDisplay 7)]
   \<and> (\<exists>new. buttons (initGame exampleEnv ''7.9'' newGameManager) = new
             \<and> map button_id new = [0..<7])"
proof -
  have d: "mathInt 10 ''3'' = 3" "mathInt 10 ''7'' = 7"
    "isRadixDigit 10 CHR ''3''" "isRadixDigit 10 CHR ''7''"
    "\<not> isRadixDigit 10 CHR ''a''" "\<not> isRadixDigit 10 CHR ''.''"
    by (simp_all add: mathInt_def isRadixDigit_def digitVal_def)
  show ?thesis
    using initGame_accepts_numeric_prefix [of "[]" "[]" "''3''" "''abc''" newGameManager exampleEnv]
      initGame_accepts_numeric_prefix [of "[]" "[]" "''7''" "''.9''" newGameManager exampleEnv]
    by (simp add: d)
qed

text \<open>
  Claim C4, as the code has it. A text that does not parse to a number, or parses to an
  integer below 3 or above 7, displays the matching message, creates no button and
  starts no round (no timer is set, \<open>gameInProgress\<close> ends false). With no round in
  progress the buttons and both recorded orders stay as they were; with a round in
  progress \<open>initGame\<close> has reset them before it validates: the buttons and both orders
  are emptied.
\<close>

theorem initGame_rejects:
  assumes "parseInt (trim s) = NaN \<or> (\<exists>k. parseInt (trim s) = Num k \<and> (k < 3 \<or> 7 < k))"
  shows "\<not> fst (checkInput (parseInt (trim s)) g)
         \<and> messageArea (initGame e s g) =
             (if parseInt (trim s) = NaN then MESSAGES WRONG_INPUT_TYPE else MESSAGES NOT_IN_RANGE)
         \<and> timers (initGame e s g) = timers g
         \<and> \<not> gameInProgress (initGame e s g)
         \<and> (\<not> gameInProgress g \<longrightarrow>
              buttons (initGame e s g) = buttons g
              \<and> ogOrder (initGame e s g) = ogOrder g
              \<and> clickedOrder (initGame e s g) = clickedOrder g)
         \<and> (gameInProgress g \<longrightarrow>
              buttons (initGame e s g) = []
              \<and> ogOrder (initGame e s g) = []
              \<and> clickedOrder (initGame e s g) = [])"
proof -
  have "\<not> fst (checkInput (parseInt (trim s)) g)"
    using assms by (auto simp add: checkInput_Num checkInput_not_number)
  then show ?thesis
    by (simp add: initGame_invalid [OF assms] displayMessage_def clearMessage_def clearButtons_def)
qed

theorem initGame_rejects_witness:
  "messageArea (initGame exampleEnv ''abc'' newGameManager) = MESSAGES WRONG_INPUT_TYPE
   \<and> messageArea (initGame exampleEnv ''10'' newGameManager) = MESSAGES NOT_IN_RANGE
   \<and> buttons (initGame exampleEnv ''10'' newGameManager) = []
   \<and> timers (initGame exampleEnv ''10'' newGameManager) = []
   \<and> buttons (initGame exampleEnv ''abc'' (initGame exampleEnv ''3'' newGameManager)) = []"
proof -
  have p: "parseInt (trim ''abc'') = NaN" "parseInt (trim ''10'') = Num 10"
    by (simp_all add: parseInt_def trim_def isWhiteSpace_def isRadixDigit_def digitVal_def
        mathInt_def)
  have g: "gameInProgress (initGame exampleEnv ''3'' newGameManager)"
    by (simp add: initGame_def parseInt_def trim_def isWhiteSpace_def isRadixDigit_def
        digitVal_def mathInt_def checkInput_Num playGame_def Let_def)
  show ?thesis
    using initGame_rejects [of "''abc''" newGameManager exampleEnv]
      initGame_rejects [of "''10''" newGameManager exampleEnv]
      initGame_rejects [of "''abc''" "initGame exampleEnv ''3'' newGameManager" exampleEnv]
    by (simp add: p g)
qed

text \<open>
  Where the state does change, or a round does start. During a round of 3 the text
  \<open>abc\<close> is submitted: the buttons and the recorded order are gone and \<open>gameInProgress\<close> is
  false. On a new page \<open>7.9\<close>, a number outside 3 to 7, and \<open>3abc\<close>, which is not a number,
  are each accepted: \<open>parseInt\<close> reads 7 and 3, the buttons are created and the round starts.
\<close>

theorem invalid_input_resets_round_counterexample:
  "gameInProgress (initGame exampleEnv ''3'' newGameManager)
   \<and> length (buttons (initGame exampleEnv ''3'' newGameManager)) = 3
   \<and> ogOrder (initGame exampleEnv ''3'' newGameManager) = [0, 1, 2]
   \<and> parseInt (trim ''abc'') = NaN
   \<and> buttons (initGame exampleEnv ''abc'' (initGame exampleEnv ''3'' newGameManager)) = []
   \<and> ogOrder (initGame exampleEnv ''abc'' (initGame exampleEnv ''3'' newGameManager)) = []
   \<and> \<not> gameInProgress (initGame exampleEnv ''abc'' (initGame exampleEnv ''3'' newGameManager))
   \<and> parseInt (trim ''7.9'') = Num 7
   \<and> gameInProgress (initGame exampleEnv ''7.9'' newGameManager)
   \<and> length (buttons (initGame exampleEnv ''7.9'' newGameManager)) = 7
   \<and> messageArea (initGame exampleEnv ''7.9'' newGameManager) = MESSAGES START
   \<and> timers (initGame exampleEnv ''7.9'' newGameManager) = [(7000, AfterDisplay 7)]
   \<and> parseInt (trim ''3abc'') = Num 3
   \<and> gameInProgress (initGame exampleEnv ''3abc'' newGameManager)
   \<and> length (buttons (initGame exampleEnv ''3abc'' newGameManager)) = 3
   \<and> messageArea (initGame exampleEnv ''3abc'' newGameManager) = MESSAGES START
   \<and> timers (initGame exampleEnv ''3abc'' newGameManager) = [(3000, AfterDisplay 3)]"
proof -
  have p: "parseInt (trim ''abc'') = NaN" "parseInt (trim ''3'') = Num 3"
    "parseInt (trim ''7.9'') = Num 7" "parseInt (trim ''3abc'') = Num 3"
    by (simp_all add: parseInt_def trim_def isWhiteSpace_def isRadixDigit_def digitVal_def
        mathInt_def)
  have s: "initGame exampleEnv t newGameManager =
             \<lparr>messageArea = MESSAGES START,
              buttons = makeButton_loop exampleEnv 0 n BUTTON_COLORS [],
              gameInProgress = True, clickedOrder = [], ogOrder = [0..<nat n],
              timers = timers newGameManager @ [(n * 1000, AfterDisplay n)]\<rparr>"
    if "parseInt (trim t) = Num n" "3 \<le> n" "n \<le> 7" for t n
    by (rule initGame_start [OF that]) simp
  note s3 = s [OF p(2)] and s7 = s [OF p(3)] and s3a = s [OF p(4)]
  have l: "length (makeButton_loop exampleEnv 0 3 BUTTON_COLORS []) = 3"
    "length (makeButton_loop exampleEnv 0 7 BUTTON_COLORS []) = 7"
    using makeButton_loop_length [of exampleEnv 3 BUTTON_COLORS]
      makeButton_loop_length [of exampleEnv 7 BUTTON_COLORS] by simp_all
  have u: "[0..<3] = [0, 1, 2 :: nat]" by code_simp
  show ?thesis
    by (simp add: s3 s7 s3a l u p initGame_invalid displayMessage_def clearMessage_def
        clearButtons_def)
qed

section \<open>The display pause and the scrambling\<close>

lemma length_scramblePositions [simp]:
  "length (scramblePositions e w h bs) = length bs"
  by (simp add: scramblePositions_def)

lemma nth_scramblePositions:
  "j < length bs \<Longrightarrow>
   scramblePositions e w h bs ! j =
     setLocation
       (EDGE_MARGIN + mathRandom e (2 * j) * (innerWidth e - w - EDGE_MARGIN - EDGE_MARGIN))
       (EDGE_MARGIN + mathRandom e (2 * j + 1) * (innerHeight e - h - EDGE_MARGIN - EDGE_MARGIN))
       (bs ! j)"
  by (simp add: scramblePositions_def nth_enumerate_eq Let_def)

lemma scramblePositions_again:
  "scramblePositions e w h (scramblePositions e' w' h' bs) = scramblePositions e w h bs"
  by (rule nth_equalityI) (simp_all add: nth_scramblePositions setLocation_def)

lemma scramblePositions_fields:
  "map button_id (scramblePositions e w h bs) = map button_id bs"
  "map color (scramblePositions e w h bs) = map color bs"
  "map textContent (scramblePositions e w h bs) = map textContent bs"
  "map onclick (scramblePositions e w h bs) = map onclick bs"
  "map clickListeners (scramblePositions e w h bs) = map clickListeners bs"
  by (rule nth_equalityI, simp, simp add: nth_scramblePositions setLocation_def)+

lemma fireTimers_0 [simp]: "fireTimers es 0 g = g"
  by (simp add: fireTimers_def)

lemma fireTimers_Suc:
  "fireTimers es (Suc m) g = step (es m) (fireTimers es m g) (Timer 0)"
  by (simp add: fireTimers_def)

lemma timer_after_display:
  assumes "timers g = [(d, AfterDisplay n)]" "buttons g \<noteq> []" "0 < n"
  shows "step e g (Timer 0) =
           g\<lparr>buttons := scramblePositions e (offsetWidth e) (offsetHeight e)
                          (map hideNumber (buttons g)),
             timers := [(2000, AfterScramblePause 0 n (offsetWidth e) (offsetHeight e))]\<rparr>"
  using assms by (simp add: resume_def scrambleLoop_def Let_def)

lemma timer_next_iteration:
  assumes "timers g = [(d, AfterScramblePause i n w h)]" "int (Suc i) < n"
  shows "step e g (Timer 0) =
           g\<lparr>buttons := scramblePositions e w h (buttons g),
             timers := [(2000, AfterScramblePause (Suc i) n w h)]\<rparr>"
  using assms by (simp add: resume_def scrambleLoop_def)

lemma timer_loop_exit:
  assumes "timers g = [(d, AfterScramblePause i n w h)]" "\<not> int (Suc i) < n"
  shows "step e g (Timer 0) = memoryTest (g\<lparr>timers := []\<rparr>)"
  using assms by (simp add: resume_def scrambleLoop_def removeTimer_def)

lemma fireTimers_scrambling:
  assumes "timers g = [(d, AfterDisplay n)]" "buttons g \<noteq> []"
  shows "int k < n \<Longrightarrow>
         fireTimers es (Suc k) g =
           g\<lparr>buttons := scramblePositions (es k) (offsetWidth (es 0)) (offsetHeight (es 0))
                          (map hideNumber (buttons g)),
             timers := [(2000, AfterScramblePause k n (offsetWidth (es 0)) (offsetHeight (es 0)))]\<rparr>"
proof (induction k)
  case 0
  then show ?case using timer_after_display [OF assms, of "es 0"] by (simp add: fireTimers_Suc)
next
  case (Suc k)
  then have IH: "fireTimers es (Suc k) g =
           g\<lparr>buttons := scramblePositions (es k) (offsetWidth (es 0)) (offsetHeight (es 0))
                          (map hideNumber (buttons g)),
             timers := [(2000, AfterScramblePause k n (offsetWidth (es 0)) (offsetHeight (es 0)))]\<rparr>"
    by simp
  show ?case
    by (subst fireTimers_Suc, subst IH, subst timer_next_iteration [OF _ Suc.prems])
       (simp_all add: scramblePositions_again)
qed

lemma fireTimers_recall:
  assumes "timers g = [(d, AfterDisplay n)]" "buttons g \<noteq> []" "0 < n"
  shows "fireTimers es (Suc (nat n)) g = memoryTest ((fireTimers es (nat n) g)\<lparr>timers := []\<rparr>)"
proof -
  obtain k where k: "nat n = Suc k" using assms(3) by (cases "nat n") auto
  then have lt: "int k < n" and ge: "\<not> int (Suc k) < n" by linarith+
  show ?thesis
    unfolding k
    by (subst fireTimers_Suc, subst (1 2) fireTimers_scrambling [OF assms(1,2) lt],
        rule timer_loop_exit [OF _ ge]) simp
qed

lemma field_of_all:
  assumes "map f xs = map f ys" "\<forall>b\<in>set ys. f b = c"
  shows "\<forall>b\<in>set xs. f b = c"
proof -
  have "f ` set xs = f ` set ys" using arg_cong [OF assms(1), of set] by simp
  then show ?thesis using assms(2) by (metis (full_types) image_iff)
qed

lemma click_without_listener:
  assumes "\<forall>b\<in>set (buttons g). onclick b = None \<and> clickListeners b = []"
  shows "step e g (Click i) = g"
  using assms by (simp add: dispatchClick_def)

lemma scrambling_no_listener:
  assumes "\<forall>b\<in>set bs. onclick b = None \<and> clickListeners b = []"
  shows "\<forall>b\<in>set (scramblePositions e w h (map hideNumber bs)).
           onclick b = None \<and> clickListeners b = []"
proof -
  have a: "\<forall>b\<in>set (map hideNumber bs). onclick b = None"
    and b: "\<forall>b\<in>set (map hideNumber bs). clickListeners b = []"
    using assms by (simp_all add: hideNumber_def)
  show ?thesis
    using field_of_all [OF scramblePositions_fields(4) a] field_of_all [OF scramblePositions_fields(5) b]
    by blast
qed

lemma memoryTest_fields:
  "buttons (memoryTest g) =
     map (\<lambda>button. button\<lparr>onclick := None, clickListeners := clickListeners button @ [CheckClick]\<rparr>)
       (buttons g)"
  "messageArea (memoryTest g) = MESSAGES GAME_STARTED"
  "timers (memoryTest g) = timers g" "ogOrder (memoryTest g) = ogOrder g"
  "clickedOrder (memoryTest g) = clickedOrder g" "gameInProgress (memoryTest g) = gameInProgress g"
  by (simp_all add: memoryTest_def displayMessage_def)

text \<open>
  An undisturbed round. It is started with input \<open>n\<close> from a state with no timer pending
  and no other input is submitted while it runs. \<open>initGame\<close> sets the display pause of \<open>n\<close>
  seconds. For every \<open>k\<close> from 1 to \<open>n\<close>, when the timer has fired \<open>k\<close> times the state is the
  started one with every button hidden and repositioned by iteration \<open>k\<close> of the loop (the
  button with id \<open>j\<close> shows no number and is at the position computed from the two random
  numbers drawn for it), and the only pending timer is the 2000 ms pause that ends
  iteration \<open>k - 1\<close> (counted from 0). Up to there no button has an \<open>onclick\<close> handler or
  a click listener, and a click changes nothing. The timer firing once more ends the
  loop without repositioning and runs \<open>memoryTest\<close>: only then has every button its click
  listener, the "guess the order" message is shown and no timer is left.
\<close>

theorem scramble_runs_n_times:
  assumes "parseInt (trim s) = Num n" and "3 \<le> n" and "n \<le> 7"
    and "timers g0 = []" and "gameInProgress g0 \<or> buttons g0 = []"
  shows "let G = step e g0 (Go s);
             btnWidth = offsetWidth (es 0); btnHeight = offsetHeight (es 0)
         in timers G = [(n * 1000, AfterDisplay n)]
            \<and> length (buttons G) = nat n
            \<and> (\<forall>k. 1 \<le> k \<and> k \<le> nat n \<longrightarrow>
                 fireTimers es k G =
                   G\<lparr>buttons := scramblePositions (es (k - 1)) btnWidth btnHeight
                                  (map hideNumber (buttons G)),
                     timers := [(2000, AfterScramblePause (k - 1) n btnWidth btnHeight)]\<rparr>)
            \<and> (\<forall>k. k \<le> nat n \<longrightarrow>
                 (\<forall>b\<in>set (buttons (fireTimers es k G)). onclick b = None \<and> clickListeners b = [])
                 \<and> (\<forall>i e'. step e' (fireTimers es k G) (Click i) = fireTimers es k G))
            \<and> fireTimers es (nat n + 1) G = memoryTest ((fireTimers es (nat n) G)\<lparr>timers := []\<rparr>)
            \<and> map location (buttons (fireTimers es (nat n + 1) G)) =
                map location (buttons (fireTimers es (nat n) G))
            \<and> (\<forall>b\<in>set (buttons (fireTimers es (nat n + 1) G)). clickListeners b = [CheckClick])
            \<and> timers (fireTimers es (nat n + 1) G) = []
            \<and> messageArea (fireTimers es (nat n + 1) G) = MESSAGES GAME_STARTED
            \<and> (\<forall>k j. 1 \<le> k \<and> k \<le> nat n \<and> j < nat n \<longrightarrow>
                 button_id (buttons (fireTimers es k G) ! j) = j
                 \<and> textContent (buttons (fireTimers es k G) ! j) = None
                 \<and> location (buttons (fireTimers es k G) ! j) =
                     Some (EDGE_MARGIN + mathRandom (es (k - 1)) (2 * j)
                             * (innerWidth (es (k - 1)) - btnWidth - EDGE_MARGIN - EDGE_MARGIN),
                           EDGE_MARGIN + mathRandom (es (k - 1)) (2 * j + 1)
                             * (innerHeight (es (k - 1)) - btnHeight - EDGE_MARGIN - EDGE_MARGIN)))"
proof -
  define G where "G = step e g0 (Go s)"
  define w where "w = offsetWidth (es 0)"
  define h where "h = offsetHeight (es 0)"
  have G: "G = \<lparr>messageArea = MESSAGES START,
            buttons = makeButton_loop e 0 n BUTTON_COLORS [],
            gameInProgress = True, clickedOrder = [], ogOrder = [0..<nat n],
            timers = timers g0 @ [(n * 1000, AfterDisplay n)]\<rparr>"
    unfolding G_def using initGame_start [OF assms(1-3) assms(5)] by simp
  have t: "timers G = [(n * 1000, AfterDisplay n)]" using assms(4) by (simp add: G)
  have l: "length (buttons G) = nat n" by (simp add: G makeButton_loop_length)
  have ne: "buttons G \<noteq> []" using l assms(2) by auto
  have fresh: "\<forall>b\<in>set (buttons G). onclick b = None \<and> clickListeners b = []"
    using makeButton_loop_fresh by (auto simp add: G)
  have ids: "map button_id (buttons G) = [0..<nat n]" by (simp add: G makeButton_loop_ids)
  have sc: "fireTimers es k G =
              G\<lparr>buttons := scramblePositions (es (k - 1)) w h (map hideNumber (buttons G)),
                timers := [(2000, AfterScramblePause (k - 1) n w h)]\<rparr>"
    if kk: "1 \<le> k \<and> k \<le> nat n" for k
  proof -
    obtain k' where k': "k = Suc k'" using kk by (cases k) auto
    then have "int k' < n" using kk by linarith
    then show ?thesis
      unfolding k' w_def h_def using fireTimers_scrambling [OF t ne] by simp
  qed
  have quiet: "\<forall>b\<in>set (buttons (fireTimers es k G)). onclick b = None \<and> clickListeners b = []"
    if "k \<le> nat n" for k
  proof (cases k)
    case 0
    then show ?thesis using fresh by simp
  next
    case (Suc k')
    then have "1 \<le> k \<and> k \<le> nat n" using that by simp
    then show ?thesis using scrambling_no_listener [OF fresh] by (simp add: sc)
  qed
  have noclick: "\<forall>i e'. step e' (fireTimers es k G) (Click i) = fireTimers es k G"
    if "k \<le> nat n" for k
    using click_without_listener [OF quiet [OF that]] by blast
  have "0 < n" using assms(2) by simp
  then have r: "fireTimers es (Suc (nat n)) G = memoryTest ((fireTimers es (nat n) G)\<lparr>timers := []\<rparr>)"
    using fireTimers_recall [OF t ne] by simp
  have loc: "map location (buttons (fireTimers es (Suc (nat n)) G)) =
               map location (buttons (fireTimers es (nat n) G))"
    by (simp add: r memoryTest_fields comp_def)
  have lis: "\<forall>b\<in>set (buttons (fireTimers es (Suc (nat n)) G)). clickListeners b = [CheckClick]"
    using quiet [of "nat n"] by (simp add: r memoryTest_fields)
  have nt: "timers (fireTimers es (Suc (nat n)) G) = []"
    by (simp add: r memoryTest_fields)
  have msg: "messageArea (fireTimers es (Suc (nat n)) G) = MESSAGES GAME_STARTED"
    by (simp add: r memoryTest_fields)
  have pin: "button_id (buttons (fireTimers es k G) ! j) = j
             \<and> textContent (buttons (fireTimers es k G) ! j) = None
             \<and> location (buttons (fireTimers es k G) ! j) =
                 Some (EDGE_MARGIN + mathRandom (es (k - 1)) (2 * j)
                         * (innerWidth (es (k - 1)) - w - EDGE_MARGIN - EDGE_MARGIN),
                       EDGE_MARGIN + mathRandom (es (k - 1)) (2 * j + 1)
                         * (innerHeight (es (k - 1)) - h - EDGE_MARGIN - EDGE_MARGIN))"
    if kj: "1 \<le> k \<and> k \<le> nat n \<and> j < nat n" for k j
  proof -
    have jl: "j < length (map hideNumber (buttons G))" using kj l by simp
    have "map button_id (buttons G) ! j = [0..<nat n] ! j" using ids by simp
    then have idj: "button_id (buttons G ! j) = j" using kj l by simp
    have k: "1 \<le> k \<and> k \<le> nat n" using kj by simp
    show ?thesis
      using jl idj
      by (simp add: sc [OF k] nth_scramblePositions [OF jl] setLocation_def hideNumber_def)
  qed
  have e1: "nat n + 1 = Suc (nat n)" by simp
  show ?thesis
    unfolding Let_def G_def [symmetric] w_def [symmetric] h_def [symmetric] e1
    using t l sc quiet noclick r loc lis nt msg pin by blast
qed

lemma parse_examples:
  "parseInt (trim ''3'') = Num 3" "parseInt (trim ''4'') = Num 4"
  by (simp_all add: parseInt_def trim_def isWhiteSpace_def isRadixDigit_def digitVal_def
      mathInt_def)

theorem scramble_runs_n_times_witness:
  "let G = step exampleEnv newGameManager (Go ''3'')
   in timers G = [(3000, AfterDisplay 3)]
      \<and> length (buttons G) = 3
      \<and> timers (fireTimers (\<lambda>j. exampleEnv) 2 G) = [(2000, AfterScramblePause 1 3 160 80)]
      \<and> timers (fireTimers (\<lambda>j. exampleEnv) 3 G) = [(2000, AfterScramblePause 2 3 160 80)]
      \<and> step exampleEnv (fireTimers (\<lambda>j. exampleEnv) 3 G) (Click 0) = fireTimers (\<lambda>j. exampleEnv) 3 G
      \<and> timers (fireTimers (\<lambda>j. exampleEnv) 4 G) = []
      \<and> location (buttons (fireTimers (\<lambda>j. exampleEnv) 2 G) ! 0) = Some (420, 360)
      \<and> textContent (buttons (fireTimers (\<lambda>j. exampleEnv) 2 G) ! 0) = None"
proof -
  have h: "(3::int) \<le> 3" "(3::int) \<le> 7" "timers newGameManager = []"
    "gameInProgress newGameManager \<or> buttons newGameManager = []"
    by simp_all
  note T = scramble_runs_n_times [OF parse_examples(1) h, of exampleEnv "\<lambda>j. exampleEnv",
      unfolded Let_def]
  note a = T [THEN conjunct1]
  note b = T [THEN conjunct2, THEN conjunct1]
  note c = T [THEN conjunct2, THEN conjunct2, THEN conjunct1, rule_format]
  note d = T [THEN conjunct2, THEN conjunct2, THEN conjunct2, THEN conjunct1, rule_format]
  note z = T [THEN conjunct2, THEN conjunct2, THEN conjunct2, THEN conjunct2,
      THEN conjunct2, THEN conjunct2, THEN conjunct2, THEN conjunct1]
  note y = T [THEN conjunct2, THEN conjunct2, THEN conjunct2, THEN conjunct2,
      THEN conjunct2, THEN conjunct2, THEN conjunct2, THEN conjunct2, THEN conjunct2,
      rule_format]
  have y2: "location (buttons (fireTimers (\<lambda>j. exampleEnv) 2
                       (step exampleEnv newGameManager (Go ''3'')))  ! 0) = Some (420, 360)
            \<and> textContent (buttons (fireTimers (\<lambda>j. exampleEnv) 2
                       (step exampleEnv newGameManager (Go ''3''))) ! 0) = None"
    using y [of 2 0] by (simp add: exampleEnv_def EDGE_MARGIN_def del: step.simps)
  have c2: "timers (fireTimers (\<lambda>j. exampleEnv) 2 (step exampleEnv newGameManager (Go ''3''))) =
              [(2000, AfterScramblePause 1 3 160 80)]"
    by (subst c [of 2]) (simp_all add: exampleEnv_def)
  have c3: "timers (fireTimers (\<lambda>j. exampleEnv) 3 (step exampleEnv newGameManager (Go ''3''))) =
              [(2000, AfterScramblePause 2 3 160 80)]"
    by (subst c [of 3]) (simp_all add: exampleEnv_def)
  have d3: "step exampleEnv (fireTimers (\<lambda>j. exampleEnv) 3 (step exampleEnv newGameManager (Go ''3'')))
              (Click 0) = fireTimers (\<lambda>j. exampleEnv) 3 (step exampleEnv newGameManager (Go ''3''))"
  proof -
    have "(3::nat) \<le> nat 3" by simp
    from d [OF this] show ?thesis by blast
  qed
  show ?thesis unfolding Let_def using a b c2 c3 d3 z y2 by simp
qed

lemma click_expected:
  assumes ids: "map button_id (buttons g) = [0..<m]"
    and og: "ogOrder g = [0..<m]"
    and co: "clickedOrder g = [0..<k]"
    and km: "k < m"
    and ls: "\<forall>b\<in>set (buttons g). onclick b = None \<and> clickListeners b = [CheckClick]"
  shows "step e g (Click k) =
           (let g1 = g\<lparr>buttons := (buttons g)[k := showNumber (buttons g ! k)],
                       clickedOrder := [0..<Suc k]\<rparr>
            in if Suc k = m then displayMessage (MESSAGES WIN) g1 else g1)"
proof -
  have len: "length (buttons g) = m" using arg_cong [OF ids, of length] by simp
  then have k: "k < length (buttons g)" using km by simp
  have "map button_id (buttons g) ! k = [0..<m] ! k" using ids by simp
  then have idk: "button_id (buttons g ! k) = k" using k km by simp
  have hk: "onclick (buttons g ! k) = None" "clickListeners (buttons g ! k) = [CheckClick]"
    using ls k by simp_all
  have d: "dispatchClick k g = checkClick k g" by (simp add: dispatchClick_def hk)
  show ?thesis
    using km by (auto simp add: k d checkClick_def Let_def og co idk)
qed

lemma clickAll_snoc: "clickAll e (is @ [i]) g = step e (clickAll e is g) (Click i)"
  by (simp add: clickAll_def)

lemma clickAll_in_order:
  assumes ids: "map button_id (buttons g) = [0..<m]"
    and og: "ogOrder g = [0..<m]"
    and co: "clickedOrder g = []"
    and ls: "\<forall>b\<in>set (buttons g). onclick b = None \<and> clickListeners b = [CheckClick]"
  shows "k \<le> m \<Longrightarrow>
         clickAll e [0..<k] g =
           g\<lparr>buttons := map (\<lambda>b. if button_id b < k then showNumber b else b) (buttons g),
             clickedOrder := [0..<k],
             messageArea := (if k = m \<and> 0 < k then MESSAGES WIN else messageArea g)\<rparr>"
proof (induction k)
  case 0
  show ?case by (rule GameManager.equality) (simp_all add: clickAll_def co)
next
  case (Suc k)
  let ?F = "\<lambda>j b. if button_id b < j then showNumber b else b"
  let ?gk = "g\<lparr>buttons := map (?F k) (buttons g), clickedOrder := [0..<k],
               messageArea := (if k = m \<and> 0 < k then MESSAGES WIN else messageArea g)\<rparr>"
  have IH: "clickAll e [0..<k] g = ?gk" using Suc by simp
  have len: "length (buttons g) = m" using arg_cong [OF ids, of length] by simp
  have idj: "button_id (buttons g ! j) = j" if "j < m" for j
  proof -
    have "map button_id (buttons g) ! j = [0..<m] ! j" using ids by simp
    then show ?thesis using that len by simp
  qed
  have ids': "map button_id (buttons ?gk) = [0..<m]"
    using ids by (simp add: comp_def showNumber_def if_distrib cong: if_cong)
  have ls': "\<forall>b\<in>set (buttons ?gk). onclick b = None \<and> clickListeners b = [CheckClick]"
    using ls by (auto simp add: showNumber_def)
  have km: "k < m" using Suc.prems by simp
  have upd: "(map (?F k) (buttons g))[k := showNumber (map (?F k) (buttons g) ! k)] =
               map (?F (Suc k)) (buttons g)"
  proof (rule nth_equalityI)
    show "length ((map (?F k) (buttons g))[k := showNumber (map (?F k) (buttons g) ! k)]) =
            length (map (?F (Suc k)) (buttons g))" by simp
  next
    fix j assume "j < length ((map (?F k) (buttons g))[k := showNumber (map (?F k) (buttons g) ! k)])"
    then have j: "j < m" using len by simp
    show "(map (?F k) (buttons g))[k := showNumber (map (?F k) (buttons g) ! k)] ! j =
            map (?F (Suc k)) (buttons g) ! j"
      using j km len idj [OF j] idj [OF km] by (cases "j = k") (auto simp add: nth_list_update)
  qed
  have "clickAll e [0..<Suc k] g = step e ?gk (Click k)"
    using clickAll_snoc [of e "[0..<k]" k g] IH by simp
  also have "\<dots> = (let g1 = ?gk\<lparr>buttons := (buttons ?gk)[k := showNumber (buttons ?gk ! k)],
                                  clickedOrder := [0..<Suc k]\<rparr>
                    in if Suc k = m then displayMessage (MESSAGES WIN) g1 else g1)"
    by (rule click_expected [OF ids' _ _ km ls']) (simp_all add: og)
  also have "\<dots> = g\<lparr>buttons := map (?F (Suc k)) (buttons g), clickedOrder := [0..<Suc k],
             messageArea := (if Suc k = m \<and> 0 < Suc k then MESSAGES WIN else messageArea g)\<rparr>"
    using km by (simp add: Let_def upd displayMessage_def)
  finally show ?case .
qed

section \<open>The recall phase\<close>

lemma recall_state:
  assumes "parseInt (trim s) = Num n" and "3 \<le> n" and "n \<le> 7"
    and "timers g0 = []" and "gameInProgress g0 \<or> buttons g0 = []"
  shows "\<exists>bs. fireTimers es (Suc (nat n)) (step e g0 (Go s)) =
           \<lparr>messageArea = MESSAGES GAME_STARTED, buttons = bs, gameInProgress = True,
            clickedOrder = [], ogOrder = [0..<nat n], timers = []\<rparr>
         \<and> map button_id bs = [0..<nat n]
         \<and> (\<forall>b\<in>set bs. textContent b = None \<and> onclick b = None
                \<and> clickListeners b = [CheckClick])"
proof -
  define G where "G = step e g0 (Go s)"
  define w where "w = offsetWidth (es 0)"
  define h where "h = offsetHeight (es 0)"
  define sb where "sb = scramblePositions (es (nat n - 1)) w h (map hideNumber (buttons G))"
  have G: "G = \<lparr>messageArea = MESSAGES START,
            buttons = makeButton_loop e 0 n BUTTON_COLORS [],
            gameInProgress = True, clickedOrder = [], ogOrder = [0..<nat n],
            timers = timers g0 @ [(n * 1000, AfterDisplay n)]\<rparr>"
    unfolding G_def using initGame_start [OF assms(1-3) assms(5)] by simp
  have t: "timers G = [(n * 1000, AfterDisplay n)]" using assms(4) by (simp add: G)
  have l: "length (buttons G) = nat n" by (simp add: G makeButton_loop_length)
  have ne: "buttons G \<noteq> []" using l assms(2) by auto
  have fresh: "\<forall>b\<in>set (buttons G). onclick b = None \<and> clickListeners b = []"
    using makeButton_loop_fresh by (auto simp add: G)
  obtain k where k: "nat n = Suc k" using assms(2) by (cases "nat n") auto
  then have lt: "int k < n" by linarith
  have "0 < n" using assms(2) by simp
  then have r: "fireTimers es (Suc (nat n)) G = memoryTest ((fireTimers es (nat n) G)\<lparr>timers := []\<rparr>)"
    using fireTimers_recall [OF t ne] by simp
  have f: "fireTimers es (nat n) G =
             G\<lparr>buttons := sb, timers := [(2000, AfterScramblePause k n w h)]\<rparr>"
    unfolding k sb_def w_def h_def using fireTimers_scrambling [OF t ne lt] by (simp add: k)
  let ?bs = "map (\<lambda>button. button\<lparr>onclick := None,
                         clickListeners := clickListeners button @ [CheckClick]\<rparr>) sb"
  have Gf: "gameInProgress G" "clickedOrder G = []" "ogOrder G = [0..<nat n]"
    "map button_id (buttons G) = [0..<nat n]"
    by (simp_all add: G makeButton_loop_ids)
  have eq: "fireTimers es (Suc (nat n)) G =
           \<lparr>messageArea = MESSAGES GAME_STARTED, buttons = ?bs, gameInProgress = True,
            clickedOrder = [], ogOrder = [0..<nat n], timers = []\<rparr>"
    by (rule GameManager.equality) (simp_all add: r f memoryTest_fields Gf)
  have "map button_id sb = map button_id (map hideNumber (buttons G))"
    unfolding sb_def by (rule scramblePositions_fields(1))
  then have "map button_id sb = [0..<nat n]"
    using Gf(4) by (simp add: comp_def hideNumber_def)
  then have ids: "map button_id ?bs = [0..<nat n]"
    by (simp add: comp_def)
  have q: "\<forall>b\<in>set sb. onclick b = None \<and> clickListeners b = []"
    unfolding sb_def by (rule scrambling_no_listener [OF fresh])
  have "\<forall>b\<in>set (map hideNumber (buttons G)). textContent b = None"
    by (simp add: hideNumber_def)
  then have tx: "\<forall>b\<in>set sb. textContent b = None"
    unfolding sb_def using field_of_all [OF scramblePositions_fields(3)] by blast
  have "\<forall>b\<in>set ?bs. textContent b = None \<and> onclick b = None \<and> clickListeners b = [CheckClick]"
    using q tx by simp
  then show ?thesis using eq ids unfolding G_def by blast
qed

text \<open>
  The recall phase of an undisturbed round of \<open>n\<close> buttons (input accepted, started with
  no timer pending and run with no other submission to the end of the scrambling). It
  begins with the ids in creation order as \<open>ogOrder\<close>, the button with id \<open>i\<close> at index \<open>i\<close>,
  no click recorded, every number hidden and the "guess the order" message. Clicking the
  first \<open>k\<close> buttons of \<open>ogOrder\<close> in that order, and nothing else, records exactly these ids
  in \<open>clickedOrder\<close> and shows exactly their numbers; the message becomes the WIN message
  at the \<open>n\<close>-th click and not before. Clicking all of \<open>ogOrder\<close> ends with \<open>clickedOrder\<close>
  equal to \<open>ogOrder\<close> and the WIN message.
\<close>

theorem recall_in_order_wins:
  assumes "parseInt (trim s) = Num n" and "3 \<le> n" and "n \<le> 7"
    and "timers g0 = []" and "gameInProgress g0 \<or> buttons g0 = []"
    and "k \<le> nat n"
  shows "let gR = fireTimers es (nat n + 1) (step e g0 (Go s));
             gk = clickAll e' (take k (ogOrder gR)) gR
         in ogOrder gR = [0..<nat n]
            \<and> map button_id (buttons gR) = [0..<nat n]
            \<and> clickedOrder gR = []
            \<and> messageArea gR = MESSAGES GAME_STARTED
            \<and> (\<forall>b\<in>set (buttons gR). textContent b = None)
            \<and> clickedOrder gk = take k (ogOrder gR)
            \<and> ogOrder gk = ogOrder gR
            \<and> map textContent (buttons gk) =
                map (\<lambda>i. if i < k then Some (i + 1) else None) [0..<nat n]
            \<and> messageArea gk = (if k = nat n then MESSAGES WIN else MESSAGES GAME_STARTED)
            \<and> clickedOrder (clickAll e' (ogOrder gR) gR) = ogOrder gR
            \<and> messageArea (clickAll e' (ogOrder gR) gR) = MESSAGES WIN"
proof -
  define gR where "gR = fireTimers es (Suc (nat n)) (step e g0 (Go s))"
  obtain bs where gR: "gR = \<lparr>messageArea = MESSAGES GAME_STARTED, buttons = bs,
            gameInProgress = True, clickedOrder = [], ogOrder = [0..<nat n], timers = []\<rparr>"
    and ids: "map button_id bs = [0..<nat n]"
    and bs: "\<forall>b\<in>set bs. textContent b = None \<and> onclick b = None \<and> clickListeners b = [CheckClick]"
    using recall_state [OF assms(1-5)] unfolding gR_def by blast
  have f: "ogOrder gR = [0..<nat n]" "map button_id (buttons gR) = [0..<nat n]"
    "clickedOrder gR = []" "messageArea gR = MESSAGES GAME_STARTED" "buttons gR = bs"
    by (simp_all add: gR ids)
  have ls: "\<forall>b\<in>set (buttons gR). onclick b = None \<and> clickListeners b = [CheckClick]"
    using bs by (simp add: f)
  have hidden: "\<forall>b\<in>set (buttons gR). textContent b = None" using bs by (simp add: f)
  have len: "length bs = nat n" using arg_cong [OF ids, of length] by simp
  have idj: "button_id (bs ! j) = j" if "j < nat n" for j
  proof -
    have "map button_id bs ! j = [0..<nat n] ! j" using ids by simp
    then show ?thesis using that len by simp
  qed
  have run: "clickAll e' [0..<j] gR =
           gR\<lparr>buttons := map (\<lambda>b. if button_id b < j then showNumber b else b) (buttons gR),
              clickedOrder := [0..<j],
              messageArea := (if j = nat n \<and> 0 < j then MESSAGES WIN else messageArea gR)\<rparr>"
    if "j \<le> nat n" for j
    by (rule clickAll_in_order [OF f(2) f(1) f(3) ls that])
  have shown: "map textContent (map (\<lambda>b. if button_id b < j then showNumber b else b) bs) =
               map (\<lambda>i. if i < j then Some (i + 1) else None) [0..<nat n]" for j
  proof (rule nth_equalityI)
    show "length (map textContent (map (\<lambda>b. if button_id b < j then showNumber b else b) bs)) =
            length (map (\<lambda>i. if i < j then Some (i + 1) else None) [0..<nat n])"
      using len by simp
  next
    fix i assume "i < length (map textContent (map (\<lambda>b. if button_id b < j then showNumber b else b) bs))"
    then have i: "i < nat n" using len by simp
    then have "bs ! i \<in> set bs" using len by simp
    then have "textContent (bs ! i) = None" using bs by blast
    then show "map textContent (map (\<lambda>b. if button_id b < j then showNumber b else b) bs) ! i =
            map (\<lambda>i. if i < j then Some (i + 1) else None) [0..<nat n] ! i"
      using i len idj [OF i] by (simp add: showNumber_def)
  qed
  have tk: "take j [0..<nat n] = [0..<j]" if "j \<le> nat n" for j
    using that by (simp add: take_upt)
  have pos: "0 < nat n" using assms(2) by simp
  have tkk: "take k (ogOrder gR) = [0..<k]" by (simp add: f(1) tk [OF assms(6)])
  note gk = run [OF assms(6)]
  have a1: "clickedOrder (clickAll e' (take k (ogOrder gR)) gR) = take k (ogOrder gR)"
    by (simp add: tkk gk)
  have a2: "ogOrder (clickAll e' (take k (ogOrder gR)) gR) = ogOrder gR"
    by (simp add: tkk gk)
  have "buttons (clickAll e' (take k (ogOrder gR)) gR) =
          map (\<lambda>b. if button_id b < k then showNumber b else b) bs"
    by (simp add: tkk gk f(5))
  then have a3: "map textContent (buttons (clickAll e' (take k (ogOrder gR)) gR)) =
       map (\<lambda>i. if i < k then Some (i + 1) else None) [0..<nat n]"
    by (simp only: shown)
  have a4: "messageArea (clickAll e' (take k (ogOrder gR)) gR) =
       (if k = nat n then MESSAGES WIN else MESSAGES GAME_STARTED)"
    using pos by (auto simp add: tkk gk f(4))
  note a = a1 a2 a3 a4
  have "ogOrder gR = [0..<nat n]" by (rule f(1))
  then have b: "clickedOrder (clickAll e' (ogOrder gR) gR) = ogOrder gR"
    "messageArea (clickAll e' (ogOrder gR) gR) = MESSAGES WIN"
    using pos run [of "nat n"] by simp_all
  have e1: "nat n + 1 = Suc (nat n)" by simp
  show ?thesis
    unfolding Let_def e1 gR_def [symmetric]
    using f(1-4) hidden a b by blast
qed

theorem recall_in_order_wins_witness:
  "let gR = fireTimers (\<lambda>j. exampleEnv) 4 (step exampleEnv newGameManager (Go ''3''))
   in ogOrder gR = [0, 1, 2]
      \<and> clickedOrder (clickAll exampleEnv [0, 1] gR) = [0, 1]
      \<and> map textContent (buttons (clickAll exampleEnv [0, 1] gR)) = [Some 1, Some 2, None]
      \<and> messageArea (clickAll exampleEnv [0, 1] gR) = MESSAGES GAME_STARTED
      \<and> clickedOrder (clickAll exampleEnv [0, 1, 2] gR) = [0, 1, 2]
      \<and> messageArea (clickAll exampleEnv [0, 1, 2] gR) = MESSAGES WIN"
proof -
  have h: "(3::int) \<le> 3" "(3::int) \<le> 7" "timers newGameManager = []"
    "gameInProgress newGameManager \<or> buttons newGameManager = []" "(2::nat) \<le> nat 3"
    by simp_all
  have u: "[0..<3] = [0, 1, 2 :: nat]" by code_simp
  note T = recall_in_order_wins [OF parse_examples(1) h, of "\<lambda>j. exampleEnv" exampleEnv exampleEnv,
      unfolded Let_def]
  show ?thesis unfolding Let_def using T by (elim conjE) (simp add: u del: step.simps)
qed

section \<open>The positions of the scrambling\<close>







section \<open>Clicks after the round has ended, and rounds started twice\<close>

lemmas game_defs =
  exampleEnv_def newGameManager_def fireTimers_def clickAll_def initGame_def parseInt_def
  trim_def isWhiteSpace_def isRadixDigit_def digitVal_def mathInt_def checkInput_def isNaN_def
  js_lt_def js_gt_def displayMessage_def clearMessage_def clearButtons_def makeButton_def
  makeButton_loop.simps BUTTON_COLORS_def newGameButton_def showNumber_def hideNumber_def
  playGame_def resume_def scrambleLoop_def scramblePositions_def setLocation_def
  removeTimer_def memoryTest_def dispatchClick_def checkClick_def Let_def EDGE_MARGIN_def
  enumerate_eq_zip upt_rec

text \<open>
  Claim C1, at an input where the code departs from it. A round of 3 buttons is in the
  recall phase and the button with id 1 is clicked first, a mismatch. The LOSE message
  is displayed, every number is shown and every \<open>onclick\<close> property is null; but the
  listeners that \<open>memoryTest\<close> added with \<open>addEventListener\<close> are still attached. The next
  click, on the button with id 0, is checked like any other and its id is recorded in
  \<open>clickedOrder\<close>; clicking 0, 1 and 2 after the loss even ends with the WIN message.
\<close>

theorem click_after_loss_is_recorded:
  "let gR = fireTimers (\<lambda>j. exampleEnv) 4 (step exampleEnv newGameManager (Go ''3''));
       gL = step exampleEnv gR (Click 1);
       g2 = step exampleEnv gL (Click 0)
   in messageArea gR = MESSAGES GAME_STARTED \<and> ogOrder gR = [0, 1, 2] \<and> clickedOrder gR = []
      \<and> messageArea gL = MESSAGES LOSE
      \<and> map textContent (buttons gL) = [Some 1, Some 2, Some 3]
      \<and> map onclick (buttons gL) = [None, None, None]
      \<and> map clickListeners (buttons gL) = [[CheckClick], [CheckClick], [CheckClick]]
      \<and> clickedOrder gL = []
      \<and> clickedOrder g2 = [0]
      \<and> messageArea (clickAll exampleEnv [0, 1, 2] gL) = MESSAGES WIN"
  by (simp add: game_defs)

text \<open>
  Claim C3, at an input where the code departs from it. A round of 3 buttons is won by
  clicking 0, 1 and 2. One more click, on any button, reads \<open>ogOrder\<close> past its end, takes
  the mismatch branch of \<open>checkClick\<close> and replaces the WIN message by the LOSE message.
\<close>

theorem click_after_win_shows_lose:
  "let gR = fireTimers (\<lambda>j. exampleEnv) 4 (step exampleEnv newGameManager (Go ''3''));
       gW = clickAll exampleEnv [0, 1, 2] gR;
       g' = step exampleEnv gW (Click 0)
   in messageArea gW = MESSAGES WIN \<and> clickedOrder gW = [0, 1, 2]
      \<and> messageArea g' = MESSAGES LOSE
      \<and> messageArea g' \<noteq> messageArea gW"
  by (simp add: game_defs)

text \<open>
  Claim C7, at an input where the code departs from its last part. In a round of 4
  buttons \<open>ogOrder\<close> is 0, 1, 2, 3. The button with id 0 is clicked, which is recorded, then
  the button with id 2, a mismatch that displays the LOSE message, then the button with
  id 1: this click is recorded too, and \<open>clickedOrder\<close> becomes 0, 1.
\<close>

theorem click_recorded_after_mismatch:
  "let gR = fireTimers (\<lambda>j. exampleEnv) 5 (step exampleEnv newGameManager (Go ''4''));
       g1 = clickAll exampleEnv [0, 2] gR;
       g2 = step exampleEnv g1 (Click 1)
   in ogOrder gR = [0, 1, 2, 3]
      \<and> messageArea g1 = MESSAGES LOSE \<and> clickedOrder g1 = [0]
      \<and> clickedOrder g2 = [0, 1]"
  by (simp add: game_defs)

text \<open>
  Claim C2, at an input where the code departs from it. Go is clicked twice with the
  input 3 before the display pause ends. \<open>initGame\<close> resets the buttons and the orders but
  cancels no timer, so two \<open>playGame\<close> run on the buttons of the second round, their timers
  firing in turn, and each ends with \<open>memoryTest\<close>. Its \<open>onclick = null\<close> does not remove the
  listener the other one added, so every button has two listeners. In the recall phase,
  with no click made yet, the button with id 0 is clicked: the first listener records
  the id, the second finds it is not the next expected one and displays the LOSE
  message. Clicking 0, 1 and 2 in order ends with \<open>clickedOrder\<close> equal to \<open>ogOrder\<close> and
  the LOSE message, not the WIN message.
\<close>

theorem double_start_correct_clicks_lose:
  "let g = runEvents exampleEnv
             [Go ''3'', Go ''3'', Timer 0, Timer 1, Timer 0, Timer 1, Timer 0, Timer 1,
              Timer 0, Timer 0] newGameManager
   in timers g = [] \<and> messageArea g = MESSAGES GAME_STARTED
      \<and> ogOrder g = [0, 1, 2] \<and> clickedOrder g = []
      \<and> map button_id (buttons g) = [0, 1, 2]
      \<and> map textContent (buttons g) = [None, None, None]
      \<and> map clickListeners (buttons g) =
          [[CheckClick, CheckClick], [CheckClick, CheckClick], [CheckClick, CheckClick]]
      \<and> clickedOrder (step exampleEnv g (Click 0)) = [0]
      \<and> messageArea (step exampleEnv g (Click 0)) = MESSAGES LOSE
      \<and> clickedOrder (clickAll exampleEnv [0, 1, 2] g) = [0, 1, 2]
      \<and> messageArea (clickAll exampleEnv [0, 1, 2] g) = MESSAGES LOSE"
  by (simp add: game_defs runEvents_def)

text \<open>
  Claim C8, at an input where the code departs from it. A round of 3 is started and its
  timer fires twice (the display pause and the first pause of the scrambling); then the
  input 4 is submitted. \<open>initGame\<close> creates the 4 buttons of the new round and sets its
  display pause of 4000 ms, and leaves the timer of the first round pending. That timer
  fires twice more: the loop of the first round repositions the new buttons and ends,
  and \<open>memoryTest\<close> attaches a click listener to each of them. The display pause of the
  new round is still pending and none of its 4 iterations has run, yet the buttons have
  their listeners and a click on the button with id 0 is recorded.
\<close>

theorem stale_round_attaches_listeners_early:
  "let g2 = runEvents exampleEnv [Go ''3'', Timer 0, Timer 0, Go ''4''] newGameManager;
       g = runEvents exampleEnv [Timer 0, Timer 0] g2
   in timers g2 = [(2000, AfterScramblePause 1 3 160 80), (4000, AfterDisplay 4)]
      \<and> map button_id (buttons g2) = [0, 1, 2, 3]
      \<and> map textContent (buttons g2) = [Some 1, Some 2, Some 3, Some 4]
      \<and> timers g = [(4000, AfterDisplay 4)]
      \<and> map button_id (buttons g) = [0, 1, 2, 3]
      \<and> map clickListeners (buttons g) = [[CheckClick], [CheckClick], [CheckClick], [CheckClick]]
      \<and> messageArea g = MESSAGES GAME_STARTED
      \<and> clickedOrder g = []
      \<and> clickedOrder (step exampleEnv g (Click 0)) = [0]"
  by (simp add: game_defs runEvents_def)

text \<open>
  The rest of claim C7 holds in every state: \<open>initGame\<close> records the ids in increasing
  order when it starts a round (lemma \<open>initGame_start\<close>), and whatever happens next
  \<open>clickedOrder\<close> stays a prefix of \<open>ogOrder\<close>. No button exists unless a round was started.
\<close>

lemma prefix_snoc_nth:
  assumes "prefix xs ys" "length xs < length ys"
  shows "prefix (xs @ [ys ! length xs]) ys"
proof -
  obtain zs where ys: "ys = xs @ zs" using assms(1) by (auto simp add: prefix_def)
  then obtain z zs' where zs: "zs = z # zs'" using assms(2) by (cases zs) auto
  show ?thesis by (simp add: ys zs)
qed

lemma checkClick_prefix:
  assumes "prefix (clickedOrder g) (ogOrder g)"
  shows "prefix (clickedOrder (checkClick i g)) (ogOrder (checkClick i g))"
  using assms prefix_snoc_nth [of "clickedOrder g" "ogOrder g"]
  by (auto simp add: checkClick_def Let_def displayMessage_def)

lemma dispatchClick_prefix:
  assumes "prefix (clickedOrder g) (ogOrder g)"
  shows "prefix (clickedOrder (dispatchClick i g)) (ogOrder (dispatchClick i g))"
proof -
  have "prefix (clickedOrder (foldl (runHandler i) g hs)) (ogOrder (foldl (runHandler i) g hs))"
    if "prefix (clickedOrder g) (ogOrder g)" for hs g
    using that
  proof (induction hs arbitrary: g)
    case Nil
    then show ?case by simp
  next
    case (Cons h hs)
    have "prefix (clickedOrder (runHandler i g h)) (ogOrder (runHandler i g h))"
      using checkClick_prefix [OF Cons.prems] by (cases h) simp
    then show ?case using Cons.IH by simp
  qed
  then show ?thesis using assms by (simp add: dispatchClick_def Let_def)
qed

lemma resume_orders:
  "clickedOrder (resume e k g) = clickedOrder g \<and> ogOrder (resume e k g) = ogOrder g"
  by (simp add: resume_def scrambleLoop_def removeTimer_def memoryTest_def displayMessage_def
      Let_def split: continuation.splits)

lemma initGame_prefix:
  assumes "prefix (clickedOrder g) (ogOrder g)"
  shows "prefix (clickedOrder (initGame e s g)) (ogOrder (initGame e s g))"
  using assms
  by (auto simp add: initGame_def Let_def checkInput_def playGame_def displayMessage_def
      clearMessage_def clearButtons_def split: jsval.splits)

lemma step_preserves_prefix:
  assumes "prefix (clickedOrder g) (ogOrder g)"
  shows "prefix (clickedOrder (step e g ev)) (ogOrder (step e g ev))"
  using assms by (cases ev) (simp_all add: initGame_prefix resume_orders dispatchClick_prefix)

lemma dispatchClick_gameInProgress:
  "gameInProgress (dispatchClick i g) = gameInProgress g"
proof -
  have "gameInProgress (foldl (runHandler i) g hs) = gameInProgress g" for hs g
  proof (induction hs arbitrary: g)
    case Nil
    then show ?case by simp
  next
    case (Cons h hs)
    have "gameInProgress (runHandler i g h) = gameInProgress g"
      by (cases h) (simp add: checkClick_def Let_def displayMessage_def)
    then show ?case using Cons.IH by simp
  qed
  then show ?thesis by (simp add: dispatchClick_def Let_def)
qed

lemma no_button_without_round:
  assumes "gameInProgress g \<or> buttons g = []"
  shows "gameInProgress (step e g ev) \<or> buttons (step e g ev) = []"
proof (cases ev)
  case (Go s)
  then show ?thesis using assms
    by (auto simp add: initGame_def Let_def checkInput_def playGame_def displayMessage_def
        clearMessage_def clearButtons_def split: jsval.splits)
next
  case (Timer k)
  have "gameInProgress (resume e k g) = gameInProgress g
        \<and> (buttons g = [] \<longrightarrow> buttons (resume e k g) = [])"
    by (simp add: resume_def scrambleLoop_def removeTimer_def memoryTest_def displayMessage_def
        scramblePositions_def Let_def split: continuation.splits)
  then show ?thesis using assms Timer by auto
next
  case (Click i)
  then show ?thesis using assms by (auto simp add: dispatchClick_gameInProgress)
qed

end
